theory Spec2Isabelle
  imports Complex_Main "HOL-Library.Word" "HOL-Library.Log_Nat"
begin

unbundle bit_operations_syntax

section \<open>Python values and errors\<close>

text \<open>
  The exceptions the modelled functions of \<^verbatim>\<open>connalysis/network/topology.py\<close> and of
  \<^verbatim>\<open>library/topology.py\<close> can raise.  A function that can raise returns
  \<open>py_error + 'a\<close>, with \<open>Inl\<close> for the exception.
\<close>

datatype py_error =
  AssertionError | ValueError | TypeError | IndexError | AttributeError | OverflowError

text \<open>Sequencing of two steps, the second of which is skipped when the first raises.\<close>

definition and_then :: "py_error + 'a \<Rightarrow> ('a \<Rightarrow> py_error + 'b) \<Rightarrow> py_error + 'b" where
  "and_then r f = (case r of Inl e \<Rightarrow> Inl e | Inr v \<Rightarrow> f v)"

section \<open>Sparse weighted matrices\<close>

text \<open>
  A scipy sparse matrix, as far as the code reads it: its shape, the array \<open>data\<close> of the
  stored values and, for each stored value, its position (row, column).  The arrays
  \<^verbatim>\<open>indices\<close> and \<^verbatim>\<open>indptr\<close> of the CSR format are abstracted into the list
  \<open>coords\<close>, kept in storage order.  A stored value may be zero (an explicit zero);
  \<^verbatim>\<open>eliminate_zeros\<close> removes such entries from the structure.
\<close>

record 'w sparse =
  shape :: "nat \<times> nat"
  coords :: "(nat \<times> nat) list"
  data :: "'w list"

definition stored :: "'w sparse \<Rightarrow> ((nat \<times> nat) \<times> 'w) list" where
  "stored m = zip (coords m) (data m)"

text \<open>
  The edges of a matrix: by the data model an entry is an edge when it is nonzero, so the
  edges are the stored entries with a nonzero value.
\<close>

definition edges :: "('w::zero) sparse \<Rightarrow> ((nat \<times> nat) \<times> 'w) list" where
  "edges m = filter (\<lambda>e. snd e \<noteq> 0) (stored m)"

definition eliminate_zeros :: "('w::zero) sparse \<Rightarrow> 'w sparse" where
  "eliminate_zeros m =
     (let keep = filter (\<lambda>e. snd e \<noteq> 0) (zip (coords m) (data m))
      in m\<lparr>coords := map fst keep, data := map snd keep\<rparr>)"

section \<open>Weights: 64-bit integers and 64-bit floats\<close>

text \<open>
  The array \<^verbatim>\<open>data\<close> of a weighted matrix holds 64-bit integers or 64-bit floats.  A
  number is modelled by its value: an integer, or a real for a float (NaN and the
  infinities are left out).  A threshold is a Python \<^verbatim>\<open>int\<close> or \<^verbatim>\<open>float\<close>, or a numpy
  scalar of one of the two kinds.
\<close>

datatype weighted = Int64 "int sparse" | Float64 "real sparse"

datatype py_number = PyInt int | PyFloat real

definition wshape :: "weighted \<Rightarrow> nat \<times> nat" where
  "wshape adj = (case adj of Int64 A \<Rightarrow> shape A | Float64 A \<Rightarrow> shape A)"

definition wcoords :: "weighted \<Rightarrow> (nat \<times> nat) list" where
  "wcoords adj = (case adj of Int64 A \<Rightarrow> coords A | Float64 A \<Rightarrow> coords A)"

text \<open>
  The conversion of a 64-bit integer to a 64-bit float rounds it to the nearest number
  that has a significand of 53 bits, and a tie to the one whose significand is even.  The
  numbers of that kind next to an integer of \<open>n > 53\<close> bits are the multiples of
  \<open>2 ^ (n - 53)\<close>, so the result is an integer again.
\<close>

definition round_to_multiple :: "int \<Rightarrow> int \<Rightarrow> int" where
  "round_to_multiple u a =
     (let q = a div u; r = a mod u
      in (if 2 * r < u \<or> (2 * r = u \<and> even q) then q else q + 1) * u)"

definition float64_of_int :: "int \<Rightarrow> int" where
  "float64_of_int i = sgn i * round_to_multiple (2 ^ nat (bitlen \<bar>i\<bar> - 53)) \<bar>i\<bar>"

text \<open>
  \<^verbatim>\<open>data >= threshold\<close> and \<^verbatim>\<open>data <= threshold\<close>, for each number of the array: numpy
  compares two integers as integers, and converts both sides to 64-bit floats in every
  other case.
\<close>

definition as_float64 :: "py_number \<Rightarrow> real" where
  "as_float64 t = (case t of PyInt k \<Rightarrow> real_of_int (float64_of_int k) | PyFloat x \<Rightarrow> x)"

definition ge_threshold :: "weighted \<Rightarrow> py_number \<Rightarrow> bool list" where
  "ge_threshold adj t =
     (case adj of
        Int64 A \<Rightarrow> map (\<lambda>d. case t of PyInt k \<Rightarrow> d \<ge> k
                                    | PyFloat x \<Rightarrow> real_of_int (float64_of_int d) \<ge> x) (data A)
      | Float64 A \<Rightarrow> map (\<lambda>d. d \<ge> as_float64 t) (data A))"

definition le_threshold :: "weighted \<Rightarrow> py_number \<Rightarrow> bool list" where
  "le_threshold adj t =
     (case adj of
        Int64 A \<Rightarrow> map (\<lambda>d. case t of PyInt k \<Rightarrow> d \<le> k
                                    | PyFloat x \<Rightarrow> real_of_int (float64_of_int d) \<le> x) (data A)
      | Float64 A \<Rightarrow> map (\<lambda>d. d \<le> as_float64 t) (data A))"

text \<open>The numbers of the array as they are written into an array of 64-bit floats.\<close>

definition astype_float64 :: "weighted \<Rightarrow> real list" where
  "astype_float64 adj =
     (case adj of Int64 A \<Rightarrow> map (\<lambda>d. real_of_int (float64_of_int d)) (data A)
                | Float64 A \<Rightarrow> data A)"

section \<open>Thresholding: \<^verbatim>\<open>at_weight_edges\<close>\<close>

text \<open>
  \<^verbatim>\<open>
  data=weighted_adj.data
  data_thresh=np.zeros(data.shape)
  if method == "strength":
      data_thresh[data>=threshold]=data[data>=threshold]
  elif method == "distance":
      data_thresh[data<=threshold]=data[data<=threshold]
  else:
      raise ValueError("Method has to be 'strength' or 'distance'")
  adj_thresh=weighted_adj.copy()
  adj_thresh.data=data_thresh
  adj_thresh.eliminate_zeros()
  return adj_thresh
  \<close>
  \<^verbatim>\<open>np.zeros\<close> makes an array of 64-bit floats, so the selected weights are converted
  when they are written into it, and the result is a matrix of 64-bit floats whatever the
  input holds.
\<close>

definition at_weight_edges :: "weighted \<Rightarrow> py_number \<Rightarrow> string \<Rightarrow> py_error + real sparse" where
  "at_weight_edges weighted_adj threshold method =
     (let assign = (\<lambda>mask. map2 (\<lambda>b d. if b then d else 0) mask (astype_float64 weighted_adj));
          adj_thresh = (\<lambda>data_thresh. eliminate_zeros
             \<lparr>shape = wshape weighted_adj, coords = wcoords weighted_adj, data = data_thresh\<rparr>)
      in if method = ''strength'' then
           Inr (adj_thresh (assign (ge_threshold weighted_adj threshold)))
         else if method = ''distance'' then
           Inr (adj_thresh (assign (le_threshold weighted_adj threshold)))
         else Inl ValueError)"

text \<open>
  Notions for stating what thresholding returns: the edges of a weighted matrix with their
  weights as reals, the value of a threshold, whether the conversion to a 64-bit float
  leaves the weights of a matrix, or a threshold, as they are, and two calls in sequence.
\<close>

definition weighted_edges :: "weighted \<Rightarrow> ((nat \<times> nat) \<times> real) list" where
  "weighted_edges adj =
     (case adj of Int64 A \<Rightarrow> map (\<lambda>e. (fst e, real_of_int (snd e))) (edges A)
                | Float64 A \<Rightarrow> edges A)"

definition value_of :: "py_number \<Rightarrow> real" where
  "value_of t = (case t of PyInt k \<Rightarrow> real_of_int k | PyFloat x \<Rightarrow> x)"

definition exact_weights :: "weighted \<Rightarrow> bool" where
  "exact_weights adj =
     (case adj of Int64 A \<Rightarrow> (\<forall>d \<in> set (data A). float64_of_int d = d) | Float64 A \<Rightarrow> True)"

definition exact_number :: "py_number \<Rightarrow> bool" where
  "exact_number t = (case t of PyInt k \<Rightarrow> float64_of_int k = k | PyFloat x \<Rightarrow> True)"

definition twice :: "weighted \<Rightarrow> py_number \<Rightarrow> py_number \<Rightarrow> string \<Rightarrow> py_error + real sparse" where
  "twice A t t' method =
     and_then (at_weight_edges A t method) (\<lambda>B. at_weight_edges (Float64 B) t' method)"

section \<open>Effects: log records, printed lines and calls of the external solver\<close>

text \<open>
  The functions below log warnings (\<^verbatim>\<open>logging.warning\<close>), print, and call the external
  solver \<^verbatim>\<open>pyflagsercount.flagser_count\<close>.  A function with such effects returns the list
  of its events, in order, next to its result; an exception keeps the events that
  happened before it.  The solver itself is a parameter of the model.
\<close>

record 'w flagser_request =
  call_matrix :: "'w sparse"
  call_max_simplices :: bool
  call_containment :: bool
  call_return_simplices :: bool
  call_threads :: "int option"
  call_max_dim :: int

record flagser_out =
  cell_counts :: "nat list"
  max_cell_counts :: "nat list option"
  out_simplices :: "int list list list"

text \<open>
  A call \<^verbatim>\<open>flagser_unweighted(adj, min_dimension=n, max_dimension=N, directed=True, coeff=2,
  approximation=a)\<close> of the homology solver of \<^verbatim>\<open>pyflagser\<close>; a dimension is an integer
  or \<^verbatim>\<open>np.inf\<close>.
\<close>

datatype dim = Fin int | Infinity

record 'w unweighted_request =
  hom_matrix :: "'w sparse"
  min_dimension :: int
  max_dimension :: dim
  hom_approximation :: "int option"

datatype 'w event =
  Call "'w flagser_request" | CallUnweighted "'w unweighted_request" | Warning string | Print string

type_synonym ('w, 'a) run = "'w event list \<times> (py_error + 'a)"

definition ret :: "'a \<Rightarrow> ('w, 'a) run" where
  "ret v = ([], Inr v)"

definition raise :: "py_error \<Rightarrow> ('w, 'a) run" where
  "raise e = ([], Inl e)"

definition emit :: "'w event \<Rightarrow> ('w, unit) run" where
  "emit ev = ([ev], Inr ())"

definition lift :: "py_error + 'a \<Rightarrow> ('w, 'a) run" where
  "lift r = ([], r)"

definition py_assert :: "bool \<Rightarrow> ('w, unit) run" where
  "py_assert b = (if b then ret () else raise AssertionError)"

definition bind :: "('w, 'a) run \<Rightarrow> ('a \<Rightarrow> ('w, 'b) run) \<Rightarrow> ('w, 'b) run" where
  "bind m f =
     (case m of
        (evs, Inl e) \<Rightarrow> (evs, Inl e)
      | (evs, Inr v) \<Rightarrow> (case f v of (evs', r) \<Rightarrow> (evs @ evs', r)))"

text \<open>A loop (or a comprehension) over a list, collecting the results in order.\<close>

fun for_each :: "('a \<Rightarrow> ('w, 'b) run) \<Rightarrow> 'a list \<Rightarrow> ('w, 'b list) run" where
  "for_each f [] = ret []"
| "for_each f (x # xs) = bind (f x) (\<lambda>y. bind (for_each f xs) (\<lambda>ys. ret (y # ys)))"

definition solver_calls :: "'w event list \<Rightarrow> 'w flagser_request list" where
  "solver_calls evs = concat (map (\<lambda>ev. case ev of Call c \<Rightarrow> [c] | _ \<Rightarrow> []) evs)"

definition warnings :: "'w event list \<Rightarrow> string list" where
  "warnings evs = concat (map (\<lambda>ev. case ev of Warning s \<Rightarrow> [s] | _ \<Rightarrow> []) evs)"

section \<open>Matrix normalisation\<close>

text \<open>
  The value of a matrix at a position: the sum of the values stored there (none stored: 0).
\<close>

definition entry :: "('w::comm_monoid_add) sparse \<Rightarrow> nat \<Rightarrow> nat \<Rightarrow> 'w" where
  "entry m i j = sum_list (map snd (filter (\<lambda>e. fst e = (i, j)) (stored m)))"

definition diagonal :: "('w::comm_monoid_add) sparse \<Rightarrow> 'w list" where
  "diagonal m = map (\<lambda>i. entry m i i) [0..<min (fst (shape m)) (snd (shape m))]"

definition count_nonzero :: "('w::zero) list \<Rightarrow> nat" where
  "count_nonzero xs = length (filter (\<lambda>x. x \<noteq> 0) xs)"

text \<open>All positions of a shape, row by row: the order of a canonical CSR matrix.\<close>

definition positions :: "nat \<times> nat \<Rightarrow> (nat \<times> nat) list" where
  "positions s = concat (map (\<lambda>i. map (\<lambda>j. (i, j)) [0..<snd s]) [0..<fst s])"

text \<open>
  \<^verbatim>\<open>
  def underlying_undirected_matrix(adj):
      adj=sp.csr_matrix(adj)
      if np.count_nonzero(adj.diagonal()) != 0:
          logging.warning('The diagonal is non-zero and this may lead to errors!')
      return (adj+adj.T).astype('bool')
  \<close>
  The sum of two sparse matrices stores the positions where the sum of the two values is
  nonzero; the sum of matrices of different shapes raises \<^verbatim>\<open>ValueError\<close>.
\<close>

definition underlying_undirected_matrix ::
  "('w::comm_monoid_add) sparse \<Rightarrow> ('c, bool sparse) run" where
  "underlying_undirected_matrix adj =
     bind (if count_nonzero (diagonal adj) \<noteq> 0
           then emit (Warning ''The diagonal is non-zero and this may lead to errors!'')
           else ret ())
       (\<lambda>_. if fst (shape adj) \<noteq> snd (shape adj) then raise ValueError
            else let keep = filter (\<lambda>(i, j). entry adj i j + entry adj j i \<noteq> 0)
                              (positions (shape adj))
                 in ret \<lparr>shape = shape adj, coords = keep, data = map (\<lambda>_. True) keep\<rparr>)"

text \<open>
  \<^verbatim>\<open>
  def rc_submatrix(adj):
      adj=sp.csr_matrix(adj)
      if np.count_nonzero(adj.diagonal()) != 0:
          logging.warning('The diagonal is non-zero and this may lead to errors!')
      mask=adj.copy().astype('bool')
      mask=(mask.multiply(mask.T))
      mask.eliminate_zeros
      return adj.multiply(mask).astype(adj.dtype)
  \<close>
  The elementwise product of two sparse matrices stores the positions where both factors
  are nonzero.
\<close>

definition rc_submatrix :: "('w::comm_monoid_add) sparse \<Rightarrow> ('c, 'w sparse) run" where
  "rc_submatrix adj =
     bind (if count_nonzero (diagonal adj) \<noteq> 0
           then emit (Warning ''The diagonal is non-zero and this may lead to errors!'')
           else ret ())
       (\<lambda>_. if fst (shape adj) \<noteq> snd (shape adj) then raise ValueError
            else let keep = filter (\<lambda>(i, j). entry adj i j \<noteq> 0 \<and> entry adj j i \<noteq> 0)
                              (positions (shape adj))
                 in ret \<lparr>shape = shape adj, coords = keep,
                          data = map (\<lambda>(i, j). entry adj i j) keep\<rparr>)"

text \<open>\<^verbatim>\<open>sp.triu\<close>: the stored entries on and above the diagonal.\<close>

definition triu :: "'w sparse \<Rightarrow> 'w sparse" where
  "triu m =
     (let keep = filter (\<lambda>e. fst (fst e) \<le> snd (fst e)) (zip (coords m) (data m))
      in \<lparr>shape = shape m, coords = map fst keep, data = map snd keep\<rparr>)"

text \<open>\<^verbatim>\<open>.astype(bool).astype(int)\<close>, on a weighted and on a boolean matrix.\<close>

definition astype_bool_int :: "('w::zero) sparse \<Rightarrow> int sparse" where
  "astype_bool_int m =
     \<lparr>shape = shape m, coords = coords m, data = map (\<lambda>d. if d \<noteq> 0 then 1 else 0) (data m)\<rparr>"

definition bool_astype_int :: "bool sparse \<Rightarrow> int sparse" where
  "bool_astype_int m =
     \<lparr>shape = shape m, coords = coords m, data = map (\<lambda>d. if d then 1 else 0) (data m)\<rparr>"

section \<open>Simplex counts\<close>

text \<open>
  \<^verbatim>\<open>_flagser_counts\<close>: the call of the external solver.  Its first statement,
  \<^verbatim>\<open>adjacency = sp.csr_matrix(adjacency.astype(bool).astype(int))\<close>, is done by the
  caller in the model (the three callers of \<^verbatim>\<open>simplex_counts\<close> hold matrices of three
  types); the result is the solver's output, whose pandas framing is not modelled.
  \<^verbatim>\<open>
  if np.count_nonzero(adjacency.diagonal()) != 0:
      logging.warning('The diagonal is non-zero!  Non-zero entries in the diagonal will be ignored.')
  flagser_counts = pyflagsercount.flagser_count(adjacency, max_simplices=max_simplices,
                       containment=count_node_participation, return_simplices=list_simplices,
                       threads=threads,max_dim=max_dim)
  \<close>
\<close>

definition flagser_counts ::
  "(int flagser_request \<Rightarrow> flagser_out) \<Rightarrow> int sparse \<Rightarrow> bool \<Rightarrow> bool \<Rightarrow> bool \<Rightarrow> int \<Rightarrow> int
     \<Rightarrow> (int, flagser_out) run" where
  "flagser_counts solver adjacency max_simplices count_node_participation list_simplices threads max_dim =
     bind (if count_nonzero (diagonal adjacency) \<noteq> 0
           then emit (Warning
             ''The diagonal is non-zero!  Non-zero entries in the diagonal will be ignored.'')
           else ret ())
       (\<lambda>_. let request = \<lparr>call_matrix = adjacency, call_max_simplices = max_simplices,
                             call_containment = count_node_participation,
                             call_return_simplices = list_simplices,
                             call_threads = Some threads, call_max_dim = max_dim\<rparr>
            in bind (emit (Call request)) (\<lambda>_. ret (solver request)))"

text \<open>
  \<^verbatim>\<open>
  def simplex_counts(adj, node_properties=None,max_simplices=False,
                     threads=1,max_dim=-1, simplex_type='directed', **kwargs):
      adj=sp.csr_matrix(adj)
      assert np.count_nonzero(adj.diagonal()) == 0, '...'
      N, M = adj.shape
      assert N == M, 'Dimension mismatch. The matrix must be square.'
      if simplex_type=='undirected':
          adj=sp.triu(underlying_undirected_matrix(adj))
      elif simplex_type=="reciprocal":
          adj=sp.triu(rc_submatrix(adj))
      flagser_counts = _flagser_counts(adj, threads=threads, max_simplices=max_simplices, max_dim=max_dim)
      if max_simplices:
          return flagser_counts["max_simplex_counts"]
      else:
          return flagser_counts["simplex_counts"]
  \<close>
  The result is the series of counts by dimension, or \<^verbatim>\<open>None\<close> when the maximal counts
  are asked for and the solver gave none.
\<close>

definition simplex_counts ::
  "(int flagser_request \<Rightarrow> flagser_out) \<Rightarrow> ('w::comm_monoid_add) sparse \<Rightarrow> bool \<Rightarrow> int \<Rightarrow> int
     \<Rightarrow> string \<Rightarrow> (int, nat list option) run" where
  "simplex_counts solver adj max_simplices threads max_dim simplex_type =
     bind (py_assert (count_nonzero (diagonal adj) = 0)) (\<lambda>_.
     bind (py_assert (fst (shape adj) = snd (shape adj))) (\<lambda>_.
     bind (if simplex_type = ''undirected'' then
             bind (underlying_undirected_matrix adj) (\<lambda>u.
               flagser_counts solver (bool_astype_int (triu u)) max_simplices False False threads max_dim)
           else if simplex_type = ''reciprocal'' then
             bind (rc_submatrix adj) (\<lambda>r.
               flagser_counts solver (astype_bool_int (triu r)) max_simplices False False threads max_dim)
           else flagser_counts solver (astype_bool_int adj) max_simplices False False threads max_dim)
       (\<lambda>out. ret (if max_simplices then max_cell_counts out else Some (cell_counts out)))))"

section \<open>Filtration\<close>

text \<open>\<^verbatim>\<open>np.unique\<close>: the distinct values, in increasing order.\<close>

definition np_unique :: "('w::linorder) list \<Rightarrow> 'w list" where
  "np_unique xs = sort (remdups xs)"

text \<open>
  \<^verbatim>\<open>
  def filtration_weights(adj, node_properties=None, method="strength"):
      if method == "strength":
          return np.unique(adj.data)[::-1]
      if method == "distance":
          return np.unique(adj.data)
      raise ValueError("Method has to be 'strength' or 'distance'")
  \<close>
  The thresholds are numbers of the kind that the matrix holds.
\<close>

definition unique_data :: "weighted \<Rightarrow> py_number list" where
  "unique_data adj =
     (case adj of Int64 A \<Rightarrow> map PyInt (np_unique (data A))
                | Float64 A \<Rightarrow> map PyFloat (np_unique (data A)))"

definition filtration_weights :: "weighted \<Rightarrow> string \<Rightarrow> py_error + py_number list" where
  "filtration_weights adj method =
     (if method = ''strength'' then Inr (rev (unique_data adj))
      else if method = ''distance'' then Inr (unique_data adj)
      else Inl ValueError)"

text \<open>
  \<^verbatim>\<open>bin_weigths\<close> starts with \<^verbatim>\<open>min_weight = weights.min()\<close>, which raises
  \<^verbatim>\<open>ValueError\<close> on an empty array.  The floating-point arithmetic that follows
  (\<^verbatim>\<open>np.arange\<close>, \<^verbatim>\<open>np.digitize\<close>, the bin centres) is the parameter \<open>centres\<close>, which
  is given the values of the weights; its result is an array of 64-bit floats.
\<close>

definition weights_of :: "weighted \<Rightarrow> real list" where
  "weights_of adj = (case adj of Int64 A \<Rightarrow> map real_of_int (data A) | Float64 A \<Rightarrow> data A)"

definition bin_weigths ::
  "(real list \<Rightarrow> nat \<Rightarrow> real list) \<Rightarrow> real list \<Rightarrow> nat \<Rightarrow> py_error + real list" where
  "bin_weigths centres weights n_bins =
     (if weights = [] then Inl ValueError else Inr (centres weights n_bins))"

text \<open>
  \<^verbatim>\<open>pd.DataFrame.from_dict(n_simplices, orient="index").fillna(0).astype(int)\<close>: one row
  for each key, in the order of insertion, with the columns (dimensions) that a row's
  series lacks filled with 0.
\<close>

definition from_dict_fillna :: "('k \<times> nat list) list \<Rightarrow> ('k \<times> nat list) list" where
  "from_dict_fillna d =
     (let width = fold max (map (\<lambda>kv. length (snd kv)) d) 0
      in map (\<lambda>kv. (fst kv, snd kv @ replicate (width - length (snd kv)) 0)) d)"

text \<open>
  \<^verbatim>\<open>
  def filtered_simplex_counts(adj, node_properties=None, method="strength",
                              binned=False, n_bins=10, threads=1, **kwargs):
      adj = adj.copy()
      if binned==True:
          adj.data = bin_weigths(adj.data, n_bins=n_bins)
      weights = filtration_weights(adj, node_properties, method)
      m = method
      def filter_weight(w):
          adj_w = at_weight_edges(adj, threshold=w, method=m)
          return simplex_counts(adj_w, threads=threads)
      n_simplices = {w: filter_weight(w) for w in weights[::-1]}
      return pd.DataFrame.from_dict(n_simplices, orient="index").fillna(0).astype(int)
  \<close>
  \<^verbatim>\<open>simplex_counts\<close> is called with \<^verbatim>\<open>max_simplices=False\<close>, so it returns a series;
  the case of \<open>None\<close> in \<open>filter_weight\<close> does not arise.
\<close>

definition filter_weight ::
  "(int flagser_request \<Rightarrow> flagser_out) \<Rightarrow> weighted \<Rightarrow> string \<Rightarrow> int \<Rightarrow> py_number
     \<Rightarrow> (int, py_number \<times> nat list) run" where
  "filter_weight solver adj m threads w =
     bind (lift (at_weight_edges adj w m)) (\<lambda>adj_w.
     bind (simplex_counts solver adj_w False threads (- 1) ''directed'') (\<lambda>c.
       case c of Some counts \<Rightarrow> ret (w, counts) | None \<Rightarrow> raise TypeError))"

definition filtered_simplex_counts ::
  "(int flagser_request \<Rightarrow> flagser_out) \<Rightarrow> (real list \<Rightarrow> nat \<Rightarrow> real list)
     \<Rightarrow> weighted \<Rightarrow> string \<Rightarrow> bool \<Rightarrow> nat \<Rightarrow> int
     \<Rightarrow> (int, (py_number \<times> nat list) list) run" where
  "filtered_simplex_counts solver centres adj0 method binned n_bins threads =
     bind (if binned
           then bind (lift (bin_weigths centres (weights_of adj0) n_bins)) (\<lambda>d.
                  ret (Float64 \<lparr>shape = wshape adj0, coords = wcoords adj0, data = d\<rparr>))
           else ret adj0) (\<lambda>adj.
     bind (lift (filtration_weights adj method)) (\<lambda>weights.
     bind (for_each (filter_weight solver adj method threads) (rev weights)) (\<lambda>n_simplices.
       ret (from_dict_fillna n_simplices))))"

text \<open>
  Notions for stating what the filtration computes: the request that
  \<^verbatim>\<open>simplex_counts(adj_w, threads=threads)\<close> sends to the solver for a matrix, the matrix
  that \<^verbatim>\<open>at_weight_edges\<close> returns for a threshold, the counts that the solver answers
  for that matrix, the stored numbers of a matrix, and the matrix with its weights binned.
\<close>

definition directed_request :: "int sparse \<Rightarrow> int \<Rightarrow> int flagser_request" where
  "directed_request m threads = \<lparr>call_matrix = m, call_max_simplices = False, call_containment = False,
      call_return_simplices = False, call_threads = Some threads, call_max_dim = - 1\<rparr>"




definition stored_numbers :: "weighted \<Rightarrow> py_number list" where
  "stored_numbers adj =
     (case adj of Int64 A \<Rightarrow> map PyInt (data A) | Float64 A \<Rightarrow> map PyFloat (data A))"


section \<open>Sample inputs\<close>

text \<open>
  A solver and a binning for the examples: the solver answers with the number of nodes and
  of stored entries of the matrix it is given; the binning leaves the weights as they are.
\<close>

definition sample_solver :: "int flagser_request \<Rightarrow> flagser_out" where
  "sample_solver r = \<lparr>cell_counts = [fst (shape (call_matrix r)), length (data (call_matrix r))],
                      max_cell_counts = None, out_simplices = []\<rparr>"

definition sample_centres :: "real list \<Rightarrow> nat \<Rightarrow> real list" where
  "sample_centres weights n_bins = weights"

definition two_edges :: "int sparse" where
  "two_edges = \<lparr>shape = (2, 2), coords = [(0, 1), (1, 0)], data = [1, 2]\<rparr>"

definition no_edges :: "int sparse" where
  "no_edges = \<lparr>shape = (2, 2), coords = [], data = []\<rparr>"

text \<open>
  A matrix whose only stored entry is an explicit zero, and a triangle on three nodes
  whose edges carry the weights 3, 1 and 2, with a solver that counts the nodes, the stored
  entries and, when all three edges are there, the one 2-simplex.
\<close>

definition stored_zero :: "int sparse" where
  "stored_zero = \<lparr>shape = (2, 2), coords = [(0, 1)], data = [0]\<rparr>"



text \<open>
  Whether a boolean matrix has a stored \<^verbatim>\<open>True\<close> at a position, and a weighted matrix
  whose two edges between nodes 0 and 1 carry opposite weights.
\<close>

definition bool_entry :: "bool sparse \<Rightarrow> nat \<Rightarrow> nat \<Rightarrow> bool" where
  "bool_entry m i j = (\<exists>e \<in> set (stored m). fst e = (i, j) \<and> snd e)"

definition opposite_weights :: "real sparse" where
  "opposite_weights = \<lparr>shape = (2, 2), coords = [(0, 1), (1, 0)], data = [1, - 1]\<rparr>"

section \<open>The approximation chunker\<close>

text \<open>
  The argument \<^verbatim>\<open>max_dim\<close> is \<open>None\<close> for the default \<^verbatim>\<open>[]\<close>, which the code replaces by
  \<^verbatim>\<open>np.inf\<close>.
\<close>

fun dim_le :: "dim \<Rightarrow> dim \<Rightarrow> bool" where
  "dim_le (Fin a) (Fin b) = (a \<le> b)"
| "dim_le _ Infinity = True"
| "dim_le Infinity (Fin b) = False"

fun dim_less :: "dim \<Rightarrow> dim \<Rightarrow> bool" where
  "dim_less (Fin a) (Fin b) = (a < b)"
| "dim_less (Fin a) Infinity = True"
| "dim_less Infinity _ = False"

fun dim_plus :: "dim \<Rightarrow> int \<Rightarrow> dim" where
  "dim_plus (Fin a) k = Fin (a + k)"
| "dim_plus Infinity k = Infinity"

definition of_max_dim :: "int option \<Rightarrow> dim" where
  "of_max_dim m = (case m of None \<Rightarrow> Infinity | Some n \<Rightarrow> Fin n)"

text \<open>
  Indexing of a Python list or a numpy array: a negative index counts from the end, an
  index out of range raises \<^verbatim>\<open>IndexError\<close>.
\<close>

definition py_index :: "'a list \<Rightarrow> int \<Rightarrow> py_error + 'a" where
  "py_index xs i =
     (if 0 \<le> i \<and> i < int (length xs) then Inr (xs ! nat i)
      else if - int (length xs) \<le> i \<and> i < 0 then Inr (xs ! nat (int (length xs) + i))
      else Inl IndexError)"

text \<open>
  \<^verbatim>\<open>np.split(ary, indices)\<close>: with \<^verbatim>\<open>div_points = [0] + indices + [len(ary)]\<close>, the
  sub-arrays \<^verbatim>\<open>ary[div_points[i]:div_points[i+1]]\<close>.
\<close>

definition py_slice :: "'a list \<Rightarrow> nat \<Rightarrow> nat \<Rightarrow> 'a list" where
  "py_slice xs s e = take (e - s) (drop s xs)"

definition np_split :: "'a list \<Rightarrow> nat list \<Rightarrow> 'a list list" where
  "np_split ary indices =
     (let div_points = 0 # indices @ [length ary]
      in map (\<lambda>i. py_slice ary (div_points ! i) (div_points ! Suc i)) [0..<length div_points - 1])"

text \<open>
  \<^verbatim>\<open>
  diff = approximation[1:] - approximation[:-1]
  slice_indx = np.array(np.where(diff != 0)[0]) + 1
  \<close>
  On 64-bit integers the difference of two values wraps around, but is zero only when
  they are equal, as on the integers.
\<close>

definition np_diff :: "int list \<Rightarrow> int list" where
  "np_diff a = map (\<lambda>i. a ! Suc i - a ! i) [0..<length a - 1]"

definition slice_indx :: "int list \<Rightarrow> nat list" where
  "slice_indx a = map Suc (filter (\<lambda>i. np_diff a ! i \<noteq> 0) [0..<length (np_diff a)])"

text \<open>
  \<^verbatim>\<open>
  def chunk_approx_and_dims(min_dim=0, max_dim=[], approximation=None):
      assert (all([isinstance(item, int) for item in approximation])), '...'
      approximation = np.array(approximation)
      if max_dim == []:
          max_dim = np.inf
      assert (approximation.size - 1 <= max_dim - min_dim), "approximation list too long for the dimension range"
      diff = approximation[1:] - approximation[:-1]
      slice_indx = np.array(np.where(diff != 0)[0]) + 1
      dim_chunks = np.split(np.arange(approximation.size) + min_dim, slice_indx)
      if approximation[-1] == -1:
          dim_chunks[-1][-1] = -1
      else:
          if dim_chunks[-1][-1] < max_dim:
              dim_chunks.append([dim_chunks[-1][-1] + 1, max_dim])
      approx_chunks = []
      for j in range(len(dim_chunks)):
          if (approximation.size < max_dim - min_dim + 1) and approximation[-1] != -1 and j == len(dim_chunks) - 1:
              a = -1
          else:
              a = approximation[int(dim_chunks[j][0]) - min_dim]
          approx_chunks.append(a)
      return dim_chunks, approx_chunks
  \<close>
  A chunk is the list of dimensions the code returns for it: every dimension of a chunk
  of the schedule, and the two bounds of the chunk appended for the rest of the range.
  \<^verbatim>\<open>int(np.inf)\<close> raises \<^verbatim>\<open>OverflowError\<close>.
\<close>

definition set_last :: "'a list \<Rightarrow> 'a \<Rightarrow> py_error + 'a list" where
  "set_last xs v = (if xs = [] then Inl IndexError else Inr (butlast xs @ [v]))"

definition py_int :: "dim \<Rightarrow> py_error + int" where
  "py_int d = (case d of Fin n \<Rightarrow> Inr n | Infinity \<Rightarrow> Inl OverflowError)"

definition approx_chunk ::
  "int \<Rightarrow> dim \<Rightarrow> int list \<Rightarrow> dim list list \<Rightarrow> nat \<Rightarrow> py_error + int" where
  "approx_chunk min_dim max_dim approximation dim_chunks j =
     and_then (py_index approximation (- 1)) (\<lambda>final.
       if dim_less (Fin (int (length approximation))) (dim_plus max_dim (1 - min_dim))
          \<and> final \<noteq> - 1 \<and> int j = int (length dim_chunks) - 1
       then Inr (- 1)
       else and_then (py_index dim_chunks (int j)) (\<lambda>chunk.
            and_then (py_index chunk 0) (\<lambda>first.
            and_then (py_int first) (\<lambda>n.
              py_index approximation (n - min_dim)))))"

fun collect :: "('a \<Rightarrow> py_error + 'b) \<Rightarrow> 'a list \<Rightarrow> py_error + 'b list" where
  "collect f [] = Inr []"
| "collect f (x # xs) = and_then (f x) (\<lambda>y. and_then (collect f xs) (\<lambda>ys. Inr (y # ys)))"

definition chunk_approx_and_dims ::
  "int \<Rightarrow> int option \<Rightarrow> int list \<Rightarrow> py_error + (dim list list \<times> int list)" where
  "chunk_approx_and_dims min_dim max_dim0 approximation =
     (let max_dim = of_max_dim max_dim0 in
      if \<not> dim_le (Fin (int (length approximation) - 1)) (dim_plus max_dim (- min_dim))
      then Inl AssertionError
      else
        let chunks0 = np_split (map (\<lambda>k. Fin (int k + min_dim)) [0..<length approximation])
                        (slice_indx approximation)
        in and_then (py_index approximation (- 1)) (\<lambda>final.
           and_then
             (if final = - 1 then
                and_then (py_index chunks0 (- 1)) (\<lambda>c.
                and_then (set_last c (Fin (- 1))) (\<lambda>c'.
                  set_last chunks0 c'))
              else
                and_then (py_index chunks0 (- 1)) (\<lambda>c.
                and_then (py_index c (- 1)) (\<lambda>top.
                  if dim_less top max_dim then Inr (chunks0 @ [[dim_plus top 1, max_dim]])
                  else Inr chunks0)))
             (\<lambda>dim_chunks.
                and_then (collect (approx_chunk min_dim max_dim approximation dim_chunks)
                            [0..<length dim_chunks])
                  (\<lambda>approx_chunks. Inr (dim_chunks, approx_chunks)))))"

text \<open>
  Notions for stating what the chunker returns: the division points of \<^verbatim>\<open>np.split\<close>, the
  chunks of the schedule's own dimensions, and the schedule's value at the first dimension
  of each of them.
\<close>

definition div_points :: "int list \<Rightarrow> nat list" where
  "div_points a = 0 # slice_indx a @ [length a]"

definition schedule_chunks :: "int \<Rightarrow> int list \<Rightarrow> dim list list" where
  "schedule_chunks min_dim a =
     map (\<lambda>i. map (\<lambda>k. Fin (int k + min_dim)) [div_points a ! i..<div_points a ! Suc i])
       [0..<Suc (length (slice_indx a))]"

definition schedule_values :: "int list \<Rightarrow> int list" where
  "schedule_values a = map (\<lambda>i. a ! (div_points a ! i)) [0..<Suc (length (slice_indx a))]"

section \<open>Betti counts\<close>

text \<open>
  The membership test \<^verbatim>\<open>x in None\<close> raises \<^verbatim>\<open>TypeError\<close> (argument of type 'NoneType'
  is not iterable), whatever \<open>x\<close> is; \<^verbatim>\<open>not x in y\<close> is \<^verbatim>\<open>not (x in y)\<close>.
\<close>

definition py_in_None :: "'a \<Rightarrow> py_error + bool" where
  "py_in_None x = Inl TypeError"

text \<open>The slice \<^verbatim>\<open>xs[0:k]\<close>, for any integer \<open>k\<close>.\<close>

definition py_slice_to :: "'a list \<Rightarrow> int \<Rightarrow> 'a list" where
  "py_slice_to xs k = (if 0 \<le> k then take (nat k) xs else take (nat (int (length xs) + k)) xs)"

text \<open>
  The schedule brought to the length \<open>max_dim + 1\<close>:
  \<^verbatim>\<open>
  if max_dim!=np.inf:
      if approximation.size-1 < max_dim:#Vector too short so pad with -1's
          approximation=np.pad(approximation, (0,max_dim-(approximation.size-1)),
                               'constant',constant_values=-1)
      if approximation.size-1>max_dim:#Vector too long, select relevant slice
          approximation=approximation[0:max_dim+1]
  \<close>
\<close>

definition fit_approximation :: "dim \<Rightarrow> int list \<Rightarrow> int list" where
  "fit_approximation max_dim approximation =
     (case max_dim of
        Infinity \<Rightarrow> approximation
      | Fin m \<Rightarrow>
          let padded = (if int (length approximation) - 1 < m
                        then approximation @ replicate (nat (m - (int (length approximation) - 1))) (- 1)
                        else approximation)
          in if int (length padded) - 1 > m then py_slice_to padded (m + 1) else padded)"

text \<open>
  One round of the loop over the chunks of the schedule:
  \<^verbatim>\<open>
  for dims_range in  np.split(np.arange(approximation.size),slice_indx):
      n=dims_range[0] #min dim for computation
      N=dims_range[-1] #max dim for computation
      a=approximation[n]
      if a==-1:
          a=None
      bettis=bettis+flagser_unweighted(adj, min_dimension=n, max_dimension=N,
                                       directed=True, coeff=2, approximation=a)['betti']
  \<close>
\<close>

definition betti_chunk ::
  "(int unweighted_request \<Rightarrow> nat list) \<Rightarrow> int sparse \<Rightarrow> int list \<Rightarrow> int list
     \<Rightarrow> (int, nat list) run" where
  "betti_chunk flagser_unweighted adj approximation dims_range =
     bind (lift (py_index dims_range 0)) (\<lambda>n.
     bind (lift (py_index dims_range (- 1))) (\<lambda>N.
     bind (lift (py_index approximation n)) (\<lambda>a.
       let request = \<lparr>hom_matrix = adj, min_dimension = n, max_dimension = Fin N,
                       hom_approximation = (if a = - 1 then None else Some a)\<rparr>
       in bind (emit (CallUnweighted request)) (\<lambda>_. ret (flagser_unweighted request)))))"

text \<open>
  \<^verbatim>\<open>
  def betti_counts(adj, node_properties=None,
                   min_dim=0, max_dim=[], simplex_type='directed', approximation=None, **kwargs):
      adj = sp.csr_matrix(adj).astype(bool).astype('int')
      assert np.count_nonzero(adj.diagonal()) == 0, '...'
      N, M = adj.shape
      assert N == M, 'Dimension mismatch. The matrix must be square.'
      assert (not approximation in None) and (min_dim!=0), \
          'For approximation != None, min_dim must be set to 0.  ...'
      if simplex_type == 'undirected':
          adj = sp.triu(underlying_undirected_matrix(adj))
      elif simplex_type == "reciprocal":
          adj = sp.triu(rc_submatrix(adj))
      if max_dim==[]:
          max_dim=np.inf
      if approximation==None:
          bettis = flagser_unweighted(adj, min_dimension=min_dim, max_dimension=max_dim,
                                      directed=True, coeff=2, approximation=None)['betti']
      else:
          assert (all([isinstance(item,int) for item in approximation]))
          approximation=np.array(approximation)
          bettis=[]
          ...                                    # the schedule is fitted, the chunks are run
          if max_dim==np.inf:
              n=approximation.size #min dim for computation
              N=np.inf #max dim for computation
              a=None
              bettis=bettis+flagser_unweighted(adj, min_dimension=n, max_dimension=N,
                                               directed=True, coeff=2, approximation=a)['betti']
      return pd.Series(bettis, name="betti_count",
                       index=pd.Index(np.arange(min_dim, len(bettis)-min_dim), name="dim"))
  \<close>
  The argument \<open>approximation\<close> is \<open>None\<close> or a list of integers.  The result is the
  series as the list of its (dimension, Betti number) pairs; a series whose index and
  values differ in length raises \<^verbatim>\<open>ValueError\<close>.  The \<^verbatim>\<open>LOG.info\<close> records are not modelled,
  and the boolean matrix of the undirected type is shown to the solver with entries 0 and 1.
\<close>

definition betti_series :: "int \<Rightarrow> nat list \<Rightarrow> py_error + (int \<times> nat) list" where
  "betti_series min_dim bettis =
     (let index = map (\<lambda>k. min_dim + int k) [0..<nat (int (length bettis) - min_dim - min_dim)]
      in if length index = length bettis then Inr (zip index bettis) else Inl ValueError)"

definition betti_counts ::
  "(int unweighted_request \<Rightarrow> nat list) \<Rightarrow> ('w::zero) sparse \<Rightarrow> int \<Rightarrow> int option \<Rightarrow> string
     \<Rightarrow> int list option \<Rightarrow> (int, (int \<times> nat) list) run" where
  "betti_counts flagser_unweighted adj0 min_dim max_dim0 simplex_type approximation0 =
     (let adj1 = astype_bool_int adj0 in
      bind (py_assert (count_nonzero (diagonal adj1) = 0)) (\<lambda>_.
      bind (py_assert (fst (shape adj1) = snd (shape adj1))) (\<lambda>_.
      bind (lift (py_in_None approximation0)) (\<lambda>member.
      bind (py_assert ((\<not> member) \<and> min_dim \<noteq> 0)) (\<lambda>_.
      bind (if simplex_type = ''undirected'' then
              bind (underlying_undirected_matrix adj1) (\<lambda>u. ret (bool_astype_int (triu u)))
            else if simplex_type = ''reciprocal'' then
              bind (rc_submatrix adj1) (\<lambda>r. ret (triu r))
            else ret adj1) (\<lambda>adj.
      let max_dim = of_max_dim max_dim0 in
      bind (case approximation0 of
              None \<Rightarrow>
                (let request = \<lparr>hom_matrix = adj, min_dimension = min_dim,
                                max_dimension = max_dim, hom_approximation = None\<rparr>
                 in bind (emit (CallUnweighted request)) (\<lambda>_. ret (flagser_unweighted request)))
            | Some approximation1 \<Rightarrow>
                (let approximation = fit_approximation max_dim approximation1 in
                 bind (for_each (betti_chunk flagser_unweighted adj approximation)
                         (np_split (map int [0..<length approximation]) (slice_indx approximation)))
                   (\<lambda>parts.
                 if max_dim = Infinity then
                   (let request = \<lparr>hom_matrix = adj, min_dimension = int (length approximation),
                                   max_dimension = Infinity, hom_approximation = None\<rparr>
                    in bind (emit (CallUnweighted request)) (\<lambda>_.
                         ret (concat parts @ flagser_unweighted request)))
                 else ret (concat parts))))
        (\<lambda>bettis. lift (betti_series min_dim bettis))))))))"

text \<open>The matrix of one node and no edge, and a homology solver for the examples.\<close>

definition one_node :: "int sparse" where
  "one_node = \<lparr>shape = (1, 1), coords = [], data = []\<rparr>"

definition sample_homology :: "int unweighted_request \<Rightarrow> nat list" where
  "sample_homology r = [fst (shape (hom_matrix r))]"

section \<open>Generalised degree: \<^verbatim>\<open>node_k_degree\<close>\<close>

text \<open>
  The argument \<^verbatim>\<open>direction\<close> is a string or a tuple of strings.  The assertion
  \<^verbatim>\<open>direction in ("IN", "OUT") or tuple(direction) == ("IN", "OUT")\<close> lets three values pass:
  the strings \<^verbatim>\<open>"IN"\<close> and \<^verbatim>\<open>"OUT"\<close> and the pair of both; on these, the test
  \<^verbatim>\<open>"OUT" in direction\<close> (a substring test on a string) is an equality with the string or
  a membership in the tuple.
\<close>

datatype py_direction = Str string | Tuple "string list"

definition valid_direction :: "py_direction \<Rightarrow> bool" where
  "valid_direction direction =
     (direction = Str ''IN'' \<or> direction = Str ''OUT'' \<or> direction = Tuple [''IN'', ''OUT''])"

definition in_direction :: "string \<Rightarrow> py_direction \<Rightarrow> bool" where
  "in_direction s direction = (case direction of Str d \<Rightarrow> s = d | Tuple ds \<Rightarrow> s \<in> set ds)"

text \<open>
  \<^verbatim>\<open>np.array(rows)[:, c]\<close>: the column \<open>c\<close> of a list of rows.  An empty list gives an
  array of one axis, and rows of different lengths give no matrix.
\<close>

definition np_column :: "int list list \<Rightarrow> int \<Rightarrow> py_error + int list" where
  "np_column rows c =
     (if rows = [] then Inl IndexError
      else if \<exists>r \<in> set rows. length r \<noteq> length (hd rows) then Inl ValueError
      else collect (\<lambda>r. py_index r c) rows)"

text \<open>
  A column of the table: \<^verbatim>\<open>x, y = np.unique(column, return_counts=True)\<close> and
  \<^verbatim>\<open>generalized_degree[name] = pd.Series(y, index=x)\<close>, aligned on the nodes
  \<open>0, \<dots>, N - 1\<close>, with \<^verbatim>\<open>fillna(0)\<close>: for each node, how often it occurs in the column.
\<close>

definition degree_column :: "nat \<Rightarrow> int list \<Rightarrow> nat list" where
  "degree_column n_nodes column = map (\<lambda>v. count_list column (int v)) [0..<n_nodes]"

type_synonym degree_table = "((int \<times> string) \<times> nat list) list"

text \<open>
  One round of the loop:
  \<^verbatim>\<open>
  for dim in np.arange(2, max_dim + 1):
      if "OUT" in direction:
          x, y = np.unique(np.array(flagser_out['simplices'][dim])[:, 0], return_counts=True)
          generalized_degree[f'{dim}_out_degree'] = pd.Series(y, index=x)
      if "IN" in direction:
          x, y = np.unique(np.array(flagser_out['simplices'][dim])[:, dim], return_counts=True)
          generalized_degree[f'{dim}_in_degree'] = pd.Series(y, index=x)
  \<close>
  The name of a column is the pair of its dimension and of \<open>out_degree\<close> or \<open>in_degree\<close>.
\<close>

definition degree_columns ::
  "flagser_out \<Rightarrow> py_direction \<Rightarrow> nat \<Rightarrow> int \<Rightarrow> py_error + degree_table" where
  "degree_columns flagser_out direction n_nodes d =
     and_then
       (if in_direction ''OUT'' direction then
          and_then (py_index (out_simplices flagser_out) d) (\<lambda>rows.
          and_then (np_column rows 0) (\<lambda>column.
            Inr [((d, ''out_degree''), degree_column n_nodes column)]))
        else Inr [])
       (\<lambda>outs.
     and_then
       (if in_direction ''IN'' direction then
          and_then (py_index (out_simplices flagser_out) d) (\<lambda>rows.
          and_then (np_column rows d) (\<lambda>column.
            Inr [((d, ''in_degree''), degree_column n_nodes column)]))
        else Inr [])
       (\<lambda>ins. Inr (outs @ ins)))"

definition generalized_degree ::
  "flagser_out \<Rightarrow> py_direction \<Rightarrow> nat \<Rightarrow> int \<Rightarrow> py_error + degree_table" where
  "generalized_degree flagser_out direction n_nodes max_dim =
     and_then (collect (degree_columns flagser_out direction n_nodes) [2..max_dim])
       (\<lambda>columns. Inr (concat columns))"

text \<open>
  \<^verbatim>\<open>
  def node_k_degree(adj, node_properties=None, direction=("IN", "OUT"), max_dim=-1, **kwargs):
      matrix = sp.csr_matrix(adj)
      assert (max_dim > 1) or (max_dim==-1), "max_dim should be >=2"
      assert direction in ("IN", "OUT") or tuple(direction) == ("IN", "OUT"), ...
      if np.count_nonzero(matrix.diagonal()) != 0:
          logging.warning('The diagonal is non-zero!  Non-zero entries in the diagonal will be ignored.')
      import pyflagsercount
      flagser_out = pyflagsercount.flagser_count(matrix, return_simplices=True, max_dim=max_dim)
      max_dim_possible = len(flagser_out['cell_counts']) - 1
      if max_dim==-1:
          max_dim = max_dim_possible
      elif max_dim > max_dim_possible:
          logging.warning("The maximum dimension selected is not attained")
          max_dim = max_dim_possible
      if (max_dim <= 1) and (max_dim!=-1):
          print("There are no simplices of dimension 2 or higher")
      else:
          index = pd.Series(range(matrix.shape[0]), name="node")
          generalized_degree = pd.DataFrame(index=index)
          for dim in np.arange(2, max_dim + 1):
              ...
          return generalized_degree.fillna(0)
  \<close>
  The result is \<open>None\<close> after the printed line, the table otherwise.  The solver is called
  with its own defaults for the arguments the call does not give.
\<close>

definition degree_request :: "'w sparse \<Rightarrow> int \<Rightarrow> 'w flagser_request" where
  "degree_request matrix max_dim = \<lparr>call_matrix = matrix, call_max_simplices = False,
      call_containment = False, call_return_simplices = True, call_threads = None,
      call_max_dim = max_dim\<rparr>"

definition node_k_degree ::
  "('w flagser_request \<Rightarrow> flagser_out) \<Rightarrow> ('w::comm_monoid_add) sparse \<Rightarrow> py_direction \<Rightarrow> int
     \<Rightarrow> ('w, degree_table option) run" where
  "node_k_degree solver matrix direction max_dim0 =
     bind (py_assert (max_dim0 > 1 \<or> max_dim0 = - 1)) (\<lambda>_.
     bind (py_assert (valid_direction direction)) (\<lambda>_.
     bind (if count_nonzero (diagonal matrix) \<noteq> 0
           then emit (Warning
             ''The diagonal is non-zero!  Non-zero entries in the diagonal will be ignored.'')
           else ret ()) (\<lambda>_.
     bind (emit (Call (degree_request matrix max_dim0))) (\<lambda>_.
     let flagser_out = solver (degree_request matrix max_dim0);
         max_dim_possible = int (length (cell_counts flagser_out)) - 1
     in bind (if max_dim0 = - 1 then ret max_dim_possible
              else if max_dim0 > max_dim_possible then
                bind (emit (Warning ''The maximum dimension selected is not attained''))
                  (\<lambda>_. ret max_dim_possible)
              else ret max_dim0) (\<lambda>max_dim.
        if max_dim \<le> 1 \<and> max_dim \<noteq> - 1 then
          bind (emit (Print ''There are no simplices of dimension 2 or higher'')) (\<lambda>_. ret None)
        else
          bind (lift (generalized_degree flagser_out direction (fst (shape matrix)) max_dim))
            (\<lambda>table. ret (Some table)))))))"

text \<open>
  The table the claim describes: for each dimension from 2 to \<open>max_dim\<close>, the number of
  simplices of that dimension that start at each node (out-degree) and that end at it
  (in-degree).
\<close>

definition expected_degree_table ::
  "int list list list \<Rightarrow> py_direction \<Rightarrow> nat \<Rightarrow> int \<Rightarrow> degree_table" where
  "expected_degree_table simplices direction n_nodes max_dim =
     concat (map (\<lambda>d.
       (if in_direction ''OUT'' direction
        then [((d, ''out_degree''),
               map (\<lambda>v. length (filter (\<lambda>s. s ! 0 = int v) (simplices ! nat d))) [0..<n_nodes])]
        else [])
       @ (if in_direction ''IN'' direction
        then [((d, ''in_degree''),
               map (\<lambda>v. length (filter (\<lambda>s. s ! nat d = int v) (simplices ! nat d))) [0..<n_nodes])]
        else [])) [2..max_dim])"

text \<open>A solver for the examples that finds one triangle on three nodes.\<close>

definition triangle :: "int sparse" where
  "triangle = \<lparr>shape = (3, 3), coords = [(0, 1), (0, 2), (1, 2)], data = [1, 1, 1]\<rparr>"

definition triangle_solver :: "int flagser_request \<Rightarrow> flagser_out" where
  "triangle_solver r = \<lparr>cell_counts = [3, 3, 1], max_cell_counts = None,
                        out_simplices = [[], [], [[0, 1, 2]]]\<rparr>"

text \<open>
  What the solver is expected to return for a complex: a list of simplices for every
  dimension it counts, and for each dimension from 2 on a non-empty list of simplices of
  that dimension, each with one vertex more than the dimension.
\<close>

definition well_formed_out :: "flagser_out \<Rightarrow> bool" where
  "well_formed_out out \<longleftrightarrow>
     length (cell_counts out) \<le> length (out_simplices out)
     \<and> (\<forall>d \<in> set [2..<length (cell_counts out)].
           out_simplices out ! d \<noteq> []
           \<and> (\<forall>s \<in> set (out_simplices out ! d). length s = Suc d))"

section \<open>Bidirectional-edge counts: \<^verbatim>\<open>bedge_counts\<close>\<close>









section \<open>The binary simplex decoder: \<^verbatim>\<open>_binary2simplex\<close>\<close>

text \<open>
  The file is read as a sequence of unsigned 64-bit words (\<^verbatim>\<open>np.fromfile(address,
  dtype=np.uint64)\<close>); the model takes the words.
  \<^verbatim>\<open>
  mask64 = np.uint(1) << np.uint(63)
  mask21 = np.uint64(1 << 21) - np.uint64(1)
  mask42 = (np.uint64(1 << 42) - np.uint64(1)) ^ mask21
  mask63 = ((np.uint64(1 << 63) - np.uint64(1)) ^ mask42) ^ mask21
  end = np.uint64(2 ** 21 - 1)
  \<close>
\<close>

type_synonym u64 = "64 word"

definition mask64 :: u64 where
  "mask64 = push_bit 63 1"

definition mask21 :: u64 where
  "mask21 = push_bit 21 1 - 1"

definition mask42 :: u64 where
  "mask42 = (push_bit 42 1 - 1) XOR mask21"

definition mask63 :: u64 where
  "mask63 = ((push_bit 63 1 - 1) XOR mask42) XOR mask21"

definition end_marker :: u64 where
  "end_marker = 2 ^ 21 - 1"

text \<open>
  \<^verbatim>\<open>
  def decode_vertices(integer):
      integer = np.uint64(integer)
      start = not((integer & mask64) >> np.uint64(63))
      v0 = integer & mask21
      v1 = (integer & mask42) >> np.uint64(21)
      v2 = (integer & mask63) >> np.uint64(42)
      vertices = [v for v in [v0, v1, v2] if v != end]
      return pd.Series([start, vertices], index=["start", "vertices"])
  \<close>
  \<^verbatim>\<open>not x\<close> is true of a number exactly when it is 0.  The counter of the calls and its
  \<^verbatim>\<open>LOG.info\<close> records are not modelled.
\<close>

definition decode_vertices :: "u64 \<Rightarrow> bool \<times> u64 list" where
  "decode_vertices integer =
     (let start = (drop_bit 63 (integer AND mask64) = 0);
          v0 = integer AND mask21;
          v1 = drop_bit 21 (integer AND mask42);
          v2 = drop_bit 42 (integer AND mask63);
          vertices = filter (\<lambda>v. v \<noteq> end_marker) [v0, v1, v2]
      in (start, vertices))"

text \<open>\<^verbatim>\<open>np.cumsum\<close> of booleans: the running count of the true ones.\<close>

fun cumsum_from :: "nat \<Rightarrow> bool list \<Rightarrow> nat list" where
  "cumsum_from c [] = []"
| "cumsum_from c (b # bs) = (c + (if b then 1 else 0)) # cumsum_from (c + (if b then 1 else 0)) bs"

definition np_cumsum :: "bool list \<Rightarrow> nat list" where
  "np_cumsum bs = cumsum_from 0 bs"

text \<open>
  \<^verbatim>\<open>vertices.set_index("sid").vertices.groupby("sid").apply(np.hstack)\<close>: one row for each
  value of \<open>sid\<close>, in increasing order, holding the concatenation of the vertex lists of
  the rows with that \<open>sid\<close>, in their order.
\<close>

definition groupby_hstack :: "(nat \<times> 'a list) list \<Rightarrow> (nat \<times> 'a list) list" where
  "groupby_hstack rows =
     map (\<lambda>s. (s, concat (map snd (filter (\<lambda>r. fst r = s) rows)))) (sort (remdups (map fst rows)))"

text \<open>
  \<^verbatim>\<open>
  def _binary2simplex(address, test=None, verbosity=1000000):
      simplex_info = pd.Series(np.fromfile(address, dtype=np.uint64))
      if test:
          simplex_info = simplex_info.iloc[0:test]
      ...
      vertices = simplex_info.apply(decode_vertices)
      vertices = (vertices.assign(sid=np.cumsum(vertices.start)).reset_index(drop=True))
      simplices = (vertices.set_index("sid").vertices.groupby("sid").apply(np.hstack))
      if not test:
          return simplices
      return (vertices.vertices, simplices)
  \<close>
  The argument \<open>test\<close> is \<open>None\<close> or an integer.  On an empty series \<^verbatim>\<open>apply\<close> returns an
  empty series, not a table, and the next line raises \<^verbatim>\<open>AttributeError\<close>.  The result
  is the pair of the decoded vertex lists (only when \<open>test\<close> is given and not 0) and of the
  simplices by \<open>sid\<close>.
\<close>

definition binary2simplex ::
  "u64 list \<Rightarrow> int option \<Rightarrow> py_error + (u64 list list option \<times> (nat \<times> u64 list) list)" where
  "binary2simplex words test =
     (let truthy = (case test of None \<Rightarrow> False | Some t \<Rightarrow> t \<noteq> 0);
          simplex_info = (case test of None \<Rightarrow> words
                          | Some t \<Rightarrow> if t \<noteq> 0 then py_slice_to words t else words)
      in if simplex_info = [] then Inl AttributeError
         else
           let vertices = map decode_vertices simplex_info;
               sid = np_cumsum (map fst vertices);
               simplices = groupby_hstack (zip sid (map snd vertices))
           in Inr (if truthy then Some (map snd vertices) else None, simplices))"

text \<open>
  The decoder in the words of the format: a word starts a simplex when its bit 63 is
  clear, the vertex slots of a word are its bits 0-20, 21-41 and 42-62, a slot equal to
  \<open>2\<^sup>2\<^sup>1 - 1\<close> holds no vertex, and the blocks of a sequence are its maximal runs of words in
  which no word but the first starts a simplex.
\<close>

definition starts_simplex :: "u64 \<Rightarrow> bool" where
  "starts_simplex w = (\<not> bit w 63)"

definition slots :: "u64 \<Rightarrow> u64 list" where
  "slots w = filter (\<lambda>v. v \<noteq> 2 ^ 21 - 1)
               [take_bit 21 w, take_bit 21 (drop_bit 21 w), take_bit 21 (drop_bit 42 w)]"

fun blocks :: "u64 list \<Rightarrow> u64 list list" where
  "blocks [] = []"
| "blocks (w # ws) =
     (case blocks ws of
        [] \<Rightarrow> [[w]]
      | b # bs \<Rightarrow> if starts_simplex (hd b) then [w] # b # bs else (w # b) # bs)"

definition first_sid :: "u64 list \<Rightarrow> nat" where
  "first_sid ws = (if starts_simplex (hd ws) then 1 else 0)"

section \<open>Properties of the conversion to 64-bit floats\<close>

lemma round_to_multiple_lower:
  assumes "0 < u" and "u dvd m" and "m \<le> a"
  shows "m \<le> round_to_multiple u a"
proof -
  obtain k where k: "m = u * k" using assms(2) by (auto simp: dvd_def)
  have "k \<le> a div u"
    using assms(1,3) k by (metis mult.commute zdiv_mono1 nonzero_mult_div_cancel_right less_irrefl)
  then have "m \<le> (a div u) * u" using assms(1) k by (simp add: mult.commute)
  also have "\<dots> \<le> round_to_multiple u a"
    using assms(1) by (simp add: round_to_multiple_def Let_def)
  finally show ?thesis .
qed

lemma round_to_multiple_dvd:
  assumes "0 < u" and "u dvd a"
  shows "round_to_multiple u a = a"
  using assms by (auto simp: round_to_multiple_def Let_def)

lemma round_to_multiple_upper:
  assumes "0 < u" and "u dvd m" and "a \<le> m"
  shows "round_to_multiple u a \<le> m"
proof (cases "a mod u = 0")
  case True
  then have "u dvd a" by (simp add: mod_eq_0_iff_dvd)
  then have "round_to_multiple u a = a" by (rule round_to_multiple_dvd [OF assms(1)])
  then show ?thesis using assms(3) by simp
next
  case False
  obtain k where k: "m = u * k" using assms(2) by (auto simp: dvd_def)
  have "a \<noteq> m" using False k by auto
  then have "a < u * k" using assms(3) k by simp
  moreover have "a div u * u \<le> a"
    using assms(1) by (metis div_mult_mod_eq pos_mod_sign add_increasing2 order_refl)
  ultimately have "a div u * u < k * u" by (simp add: mult.commute)
  then have "a div u < k" using assms(1) by simp
  then have "(a div u + 1) * u \<le> m" using assms(1) k by (simp add: mult.commute)
  moreover have "round_to_multiple u a \<le> (a div u + 1) * u"
    using assms(1) by (simp add: round_to_multiple_def Let_def)
  ultimately show ?thesis by simp
qed

lemma round_to_multiple_mono:
  assumes "0 < u" and "a \<le> b"
  shows "round_to_multiple u a \<le> round_to_multiple u b"
proof (cases "a div u < b div u")
  case True
  have "round_to_multiple u a \<le> (a div u + 1) * u"
    using assms(1) by (simp add: round_to_multiple_def Let_def)
  also have "\<dots> \<le> (b div u) * u" using True assms(1) by simp
  also have "\<dots> \<le> round_to_multiple u b"
    using assms(1) by (simp add: round_to_multiple_def Let_def)
  finally show ?thesis .
next
  case False
  then have q: "a div u = b div u" using assms zdiv_mono1 [of a b u] by simp
  have "a = (a div u) * u + a mod u" "b = (b div u) * u + b mod u" by simp_all
  then have "a mod u \<le> b mod u" using assms(2) q by (metis add_le_cancel_left)
  then show ?thesis
    using assms(1) q by (auto simp: round_to_multiple_def Let_def)
qed

lemma float64_of_int_0: "float64_of_int 0 = 0"
  by (simp add: float64_of_int_def)

lemma float64_of_int_minus: "float64_of_int (- i) = - float64_of_int i"
  by (simp add: float64_of_int_def sgn_minus)

lemma grid_dvd:
  assumes "0 < a"
  shows "(2::int) ^ nat (bitlen a - 53) dvd 2 ^ nat (bitlen a - 1)"
  by (rule le_imp_power_dvd) simp

lemma float64_of_int_pos:
  assumes "0 < a"
  shows "float64_of_int a = round_to_multiple (2 ^ nat (bitlen a - 53)) a"
    and "2 ^ nat (bitlen a - 1) \<le> float64_of_int a"
    and "float64_of_int a \<le> 2 ^ nat (bitlen a)"
proof -
  show eq: "float64_of_int a = round_to_multiple (2 ^ nat (bitlen a - 53)) a"
    using assms by (simp add: float64_of_int_def)
  have b: "2 ^ nat (bitlen a - 1) \<le> a" "a < 2 ^ nat (bitlen a)"
    using bitlen_bounds [OF assms] by simp_all
  show "2 ^ nat (bitlen a - 1) \<le> float64_of_int a"
    unfolding eq by (rule round_to_multiple_lower [OF _ grid_dvd [OF assms] b(1)]) simp
  have "(2::int) ^ nat (bitlen a - 53) dvd 2 ^ nat (bitlen a)"
    by (rule le_imp_power_dvd) simp
  then show "float64_of_int a \<le> 2 ^ nat (bitlen a)"
    unfolding eq using b(2) by (intro round_to_multiple_upper) simp_all
qed

lemma bitlen_mono: "a \<le> b \<Longrightarrow> bitlen a \<le> bitlen b"
  by (simp add: bitlen_def floorlog_mono nat_mono)

lemma float64_of_int_mono_pos:
  assumes "0 < a" and "a \<le> b"
  shows "float64_of_int a \<le> float64_of_int b"
proof (cases "bitlen a = bitlen b")
  case True
  have "0 < b" using assms by simp
  then show ?thesis
    using float64_of_int_pos(1) [OF assms(1)] float64_of_int_pos(1) [OF \<open>0 < b\<close>] True
      round_to_multiple_mono [OF _ assms(2), of "2 ^ nat (bitlen b - 53)"]
    by simp
next
  case False
  have bpos: "0 < b" using assms by simp
  have "bitlen a < bitlen b" using False bitlen_mono [OF assms(2)] by simp
  then have "nat (bitlen a) \<le> nat (bitlen b - 1)" by simp
  then have "(2::int) ^ nat (bitlen a) \<le> 2 ^ nat (bitlen b - 1)"
    by (rule power_increasing) simp
  then show ?thesis
    using float64_of_int_pos(3) [OF assms(1)] float64_of_int_pos(2) [OF bpos] by linarith
qed

lemma float64_of_int_sign:
  "(0 < float64_of_int i \<longleftrightarrow> 0 < i) \<and> (float64_of_int i < 0 \<longleftrightarrow> i < 0)"
proof -
  have p: "0 < float64_of_int a" if "0 < a" for a
  proof -
    have "(0::int) < 2 ^ nat (bitlen a - 1)" by simp
    then show ?thesis using float64_of_int_pos(2) [OF that] by linarith
  qed
  consider "0 < i" | "i = 0" | "i < 0" by linarith
  then show ?thesis
  proof cases
    case 1
    then show ?thesis using p [of i] by simp
  next
    case 2
    then show ?thesis by (simp add: float64_of_int_0)
  next
    case 3
    then have "0 < float64_of_int (- i)" using p [of "- i"] by simp
    then show ?thesis using 3 by (simp add: float64_of_int_minus)
  qed
qed

lemma float64_of_int_eq_0_iff: "float64_of_int i = 0 \<longleftrightarrow> i = 0"
  using float64_of_int_sign [of i] by (cases "i = 0") (auto simp: float64_of_int_0)

lemma float64_of_int_mono:
  assumes "i \<le> j"
  shows "float64_of_int i \<le> float64_of_int j"
proof -
  consider "0 < i" | "i \<le> 0" "0 \<le> j" | "j < 0" using assms by linarith
  then show ?thesis
  proof cases
    case 1
    then show ?thesis using assms by (rule float64_of_int_mono_pos)
  next
    case 2
    have "float64_of_int i \<le> 0" using float64_of_int_sign [of i] 2(1) by linarith
    moreover have "0 \<le> float64_of_int j" using float64_of_int_sign [of j] 2(2) by linarith
    ultimately show ?thesis by simp
  next
    case 3
    then have "0 < - j" "- j \<le> - i" using assms by simp_all
    then have "float64_of_int (- j) \<le> float64_of_int (- i)" by (rule float64_of_int_mono_pos)
    then show ?thesis by (simp add: float64_of_int_minus)
  qed
qed

lemma float64_of_int_exact_pos:
  assumes "0 \<le> a" and "a \<le> 2 ^ 53"
  shows "float64_of_int a = a"
proof (cases "a = 0")
  case True
  then show ?thesis by (simp add: float64_of_int_0)
next
  case False
  then have pos: "0 < a" using assms(1) by simp
  show ?thesis
  proof (cases "a = 2 ^ 53")
    case True
    have "bitlen (1::int) = 1" by (simp add: bitlen_alt_def)
    then have "bitlen ((2::int) ^ 53) = 54" using bitlen_pow2 [of 1 53] by simp
    then show ?thesis
      using True by (simp add: float64_of_int_def round_to_multiple_def Let_def)
  next
    case False
    then have "a < 2 ^ 53" using assms(2) by simp
    have "bitlen a \<le> 53"
    proof (rule ccontr)
      assume "\<not> bitlen a \<le> 53"
      then have "53 \<le> nat (bitlen a - 1)" by simp
      then have "(2::int) ^ 53 \<le> 2 ^ nat (bitlen a - 1)" by (rule power_increasing) simp
      then show False using bitlen_bounds [OF pos] \<open>a < 2 ^ 53\<close> by linarith
    qed
    then show ?thesis
      using pos by (simp add: float64_of_int_def round_to_multiple_def Let_def)
  qed
qed

lemma float64_of_int_exact:
  assumes "\<bar>i\<bar> \<le> 2 ^ 53"
  shows "float64_of_int i = i"
proof (cases "0 \<le> i")
  case True
  then show ?thesis using assms by (intro float64_of_int_exact_pos) simp_all
next
  case False
  then have "float64_of_int (- i) = - i" using assms by (intro float64_of_int_exact_pos) simp_all
  then show ?thesis by (simp add: float64_of_int_minus)
qed

lemma float64_of_int_examples:
  "float64_of_int 9007199254740992 = 9007199254740992"
  "float64_of_int 9007199254740993 = 9007199254740992"
  "float64_of_int 9007199254740995 = 9007199254740996"
  "float64_of_int 9007199254740996 = 9007199254740996"
  by code_simp+

section \<open>Properties of thresholding\<close>

lemma zip_fst_snd: "zip (map fst ps) (map snd ps) = ps"
  by (induction ps) auto

lemma map2_same: "map2 f (map g xs) (map h xs) = map (\<lambda>x. f (g x) (h x)) xs"
  by (induction xs) auto

lemma filter_zip_map_keep:
  assumes "\<And>d. c d = 0 \<longleftrightarrow> d = 0"
  shows "filter (\<lambda>e. snd e \<noteq> 0) (zip cs (map (\<lambda>d. if P d then c d else 0) ds))
     = map (\<lambda>e. (fst e, c (snd e))) (filter (\<lambda>e. snd e \<noteq> 0 \<and> P (snd e)) (zip cs ds))"
proof (induction cs arbitrary: ds)
  case Nil
  show ?case by simp
next
  case (Cons a cs)
  show ?case
  proof (cases ds)
    case Nil
    then show ?thesis by simp
  next
    case (Cons d ds')
    with Cons.IH [of ds'] assms show ?thesis by simp
  qed
qed

lemma stored_eliminate_zeros:
  "stored (eliminate_zeros m) = filter (\<lambda>e. snd e \<noteq> 0) (stored m)"
  by (simp add: stored_def eliminate_zeros_def Let_def zip_fst_snd)

lemma edges_eliminate_zeros: "edges (eliminate_zeros m) = stored (eliminate_zeros m)"
  by (simp add: edges_def stored_eliminate_zeros)

lemma shape_eliminate_zeros: "shape (eliminate_zeros m) = shape m"
  by (simp add: eliminate_zeros_def Let_def)

lemma eliminate_zeros_lengths:
  "length (coords (eliminate_zeros m)) = length (data (eliminate_zeros m))"
  by (simp add: eliminate_zeros_def Let_def)

lemma set_data_eliminate_zeros: "set (data (eliminate_zeros m)) \<subseteq> set (data m)"
  by (auto simp: eliminate_zeros_def Let_def dest: set_zip_rightD)

text \<open>
  The matrix that keeps the weights selected by \<open>P\<close>, converted by \<open>c\<close>: its stored
  entries are the selected edges, in order.
\<close>

lemma stored_selected:
  assumes "\<And>d. c d = 0 \<longleftrightarrow> d = 0"
  shows "stored (eliminate_zeros
           \<lparr>shape = s, coords = coords m, data = map (\<lambda>d. if P d then c d else 0) (data m)\<rparr>)
     = map (\<lambda>e. (fst e, c (snd e))) (filter (\<lambda>e. P (snd e)) (edges m))"
proof -
  have "stored (eliminate_zeros
           \<lparr>shape = s, coords = coords m, data = map (\<lambda>d. if P d then c d else 0) (data m)\<rparr>)
      = map (\<lambda>e. (fst e, c (snd e)))
          (filter (\<lambda>e. snd e \<noteq> 0 \<and> P (snd e)) (zip (coords m) (data m)))"
    unfolding stored_eliminate_zeros
    by (simp add: stored_def filter_zip_map_keep [where c = c, OF assms])
  also have "filter (\<lambda>e. snd e \<noteq> 0 \<and> P (snd e)) (zip (coords m) (data m))
      = filter (\<lambda>e. P (snd e)) (edges m)"
    by (simp add: edges_def stored_def conj_commute)
  finally show ?thesis .
qed

lemma sparse_eq_stored:
  assumes "shape a = shape b" and "stored a = stored b"
    and "length (coords a) = length (data a)" and "length (coords b) = length (data b)"
  shows "(a :: 'w sparse) = b"
proof -
  have "map fst (stored a) = map fst (stored b)" "map snd (stored a) = map snd (stored b)"
    using assms(2) by simp_all
  then have "coords a = coords b" "data a = data b"
    using assms(3,4) by (simp_all add: stored_def)
  with assms(1) show ?thesis by simp
qed

lemma edges_data: "e \<in> set (edges m) \<Longrightarrow> snd e \<in> set (data m)"
  by (cases e) (auto simp: edges_def stored_def dest: set_zip_rightD)

text \<open>Selecting by \<open>P\<close> with conversion and then by \<open>Q\<close>, against selecting by \<open>R\<close>.\<close>

lemma selected_twice:
  fixes m :: "('w::zero) sparse" and c :: "'w \<Rightarrow> ('v::zero)"
  assumes c0: "\<And>d. c d = 0 \<longleftrightarrow> d = 0"
    and pq: "\<And>d. d \<in> set (data m) \<Longrightarrow> (P d \<and> Q (c d)) = R d"
    and B: "B = eliminate_zeros
           \<lparr>shape = s, coords = coords m, data = map (\<lambda>d. if P d then c d else 0) (data m)\<rparr>"
  shows "eliminate_zeros
           \<lparr>shape = shape B, coords = coords B, data = map (\<lambda>d. if Q d then d else 0) (data B)\<rparr>
       = eliminate_zeros
           \<lparr>shape = s, coords = coords m, data = map (\<lambda>d. if R d then c d else 0) (data m)\<rparr>"
    (is "?l = ?r")
proof (rule sparse_eq_stored)
  show "shape ?l = shape ?r"
    by (simp add: shape_eliminate_zeros B)
  have "stored ?l = map (\<lambda>e. (fst e, snd e)) (filter (\<lambda>e. Q (snd e)) (edges B))"
    by (rule stored_selected [where c = "\<lambda>d. d"]) simp
  also have "\<dots> = filter (\<lambda>e. Q (snd e)) (stored B)"
    by (simp add: B edges_eliminate_zeros)
  also have "stored B = map (\<lambda>e. (fst e, c (snd e))) (filter (\<lambda>e. P (snd e)) (edges m))"
    unfolding B by (rule stored_selected [OF c0])
  also have "filter (\<lambda>e. Q (snd e)) (map (\<lambda>e. (fst e, c (snd e))) (filter (\<lambda>e. P (snd e)) (edges m)))
      = map (\<lambda>e. (fst e, c (snd e))) (filter (\<lambda>e. P (snd e) \<and> Q (c (snd e))) (edges m))"
    by (simp add: filter_map comp_def conj_commute)
  also have "filter (\<lambda>e. P (snd e) \<and> Q (c (snd e))) (edges m) = filter (\<lambda>e. R (snd e)) (edges m)"
    by (rule filter_cong) (simp_all add: pq edges_data)
  also have "map (\<lambda>e. (fst e, c (snd e))) (filter (\<lambda>e. R (snd e)) (edges m)) = stored ?r"
    by (rule stored_selected [OF c0, symmetric])
  finally show "stored ?l = stored ?r" .
  show "length (coords ?l) = length (data ?l)" by (rule eliminate_zeros_lengths)
  show "length (coords ?r) = length (data ?r)" by (rule eliminate_zeros_lengths)
qed

lemma real_float64_eq_0_iff: "real_of_int (float64_of_int d) = 0 \<longleftrightarrow> d = 0"
  by (simp add: float64_of_int_eq_0_iff)

text \<open>The two branches of \<^verbatim>\<open>at_weight_edges\<close>, for each kind of matrix.\<close>

lemma at_weight_edges_Int64:
  "at_weight_edges (Int64 M) t ''strength'' = Inr (eliminate_zeros
     \<lparr>shape = shape M, coords = coords M,
      data = map (\<lambda>d. if (case t of PyInt k \<Rightarrow> d \<ge> k
                                   | PyFloat x \<Rightarrow> real_of_int (float64_of_int d) \<ge> x)
                      then real_of_int (float64_of_int d) else 0) (data M)\<rparr>)"
  "at_weight_edges (Int64 M) t ''distance'' = Inr (eliminate_zeros
     \<lparr>shape = shape M, coords = coords M,
      data = map (\<lambda>d. if (case t of PyInt k \<Rightarrow> d \<le> k
                                   | PyFloat x \<Rightarrow> real_of_int (float64_of_int d) \<le> x)
                      then real_of_int (float64_of_int d) else 0) (data M)\<rparr>)"
  by (simp_all add: at_weight_edges_def ge_threshold_def le_threshold_def astype_float64_def
      wshape_def wcoords_def map2_same)

lemma at_weight_edges_Float64:
  "at_weight_edges (Float64 F) t ''strength'' = Inr (eliminate_zeros
     \<lparr>shape = shape F, coords = coords F,
      data = map (\<lambda>d. if d \<ge> as_float64 t then d else 0) (data F)\<rparr>)"
  "at_weight_edges (Float64 F) t ''distance'' = Inr (eliminate_zeros
     \<lparr>shape = shape F, coords = coords F,
      data = map (\<lambda>d. if d \<le> as_float64 t then d else 0) (data F)\<rparr>)"
proof -
  have "map2 (\<lambda>b d. if b then d else 0) (map g (data F)) (data F)
      = map (\<lambda>d. if g d then d else 0) (data F)" for g :: "real \<Rightarrow> bool"
    using map2_same [of "\<lambda>b d. if b then d else 0" g "data F" "\<lambda>d. d"] by simp
  then show "at_weight_edges (Float64 F) t ''strength'' = Inr (eliminate_zeros
     \<lparr>shape = shape F, coords = coords F,
      data = map (\<lambda>d. if d \<ge> as_float64 t then d else 0) (data F)\<rparr>)"
    and "at_weight_edges (Float64 F) t ''distance'' = Inr (eliminate_zeros
     \<lparr>shape = shape F, coords = coords F,
      data = map (\<lambda>d. if d \<le> as_float64 t then d else 0) (data F)\<rparr>)"
    by (simp_all add: at_weight_edges_def ge_threshold_def le_threshold_def astype_float64_def
        wshape_def wcoords_def)
qed

lemma at_weight_edges_other:
  "method \<noteq> ''strength'' \<Longrightarrow> method \<noteq> ''distance'' \<Longrightarrow> at_weight_edges A t method = Inl ValueError"
  by (simp add: at_weight_edges_def)

lemma exact_selected:
  assumes ex: "\<forall>d \<in> set (data M). float64_of_int d = d"
    and pq: "\<And>d. d \<in> set (data M) \<Longrightarrow> P d = Q (real_of_int d)"
  shows "map (\<lambda>e. (fst e, real_of_int (float64_of_int (snd e)))) (filter (\<lambda>e. P (snd e)) (edges M))
       = filter (\<lambda>e. Q (snd e)) (map (\<lambda>e. (fst e, real_of_int (snd e))) (edges M))"
proof -
  have "filter (\<lambda>e. Q (snd e)) (map (\<lambda>e. (fst e, real_of_int (snd e))) (edges M))
      = map (\<lambda>e. (fst e, real_of_int (snd e))) (filter (\<lambda>e. Q (real_of_int (snd e))) (edges M))"
    by (simp add: filter_map comp_def)
  also have "filter (\<lambda>e. Q (real_of_int (snd e))) (edges M) = filter (\<lambda>e. P (snd e)) (edges M)"
    by (rule filter_cong) (simp_all add: pq edges_data)
  also have "map (\<lambda>e. (fst e, real_of_int (snd e))) (filter (\<lambda>e. P (snd e)) (edges M))
      = map (\<lambda>e. (fst e, real_of_int (float64_of_int (snd e)))) (filter (\<lambda>e. P (snd e)) (edges M))"
    by (rule map_cong) (auto simp: ex edges_data)
  finally show ?thesis by simp
qed

lemma at_weight_edges_exact:
  assumes "exact_weights A" and "exact_number t"
  shows "\<exists>B. at_weight_edges A t ''strength'' = Inr B \<and> shape B = wshape A
           \<and> stored B = filter (\<lambda>e. snd e \<ge> value_of t) (weighted_edges A) \<and> edges B = stored B"
    and "\<exists>B. at_weight_edges A t ''distance'' = Inr B \<and> shape B = wshape A
           \<and> stored B = filter (\<lambda>e. snd e \<le> value_of t) (weighted_edges A) \<and> edges B = stored B"
proof -
  show "\<exists>B. at_weight_edges A t ''strength'' = Inr B \<and> shape B = wshape A
           \<and> stored B = filter (\<lambda>e. snd e \<ge> value_of t) (weighted_edges A) \<and> edges B = stored B"
  proof (cases A)
    case (Int64 M)
    have ex: "\<forall>d \<in> set (data M). float64_of_int d = d"
      using assms(1) Int64 by (simp add: exact_weights_def)
    have pq: "(case t of PyInt k \<Rightarrow> d \<ge> k | PyFloat x \<Rightarrow> real_of_int (float64_of_int d) \<ge> x)
        = (real_of_int d \<ge> value_of t)" if "d \<in> set (data M)" for d
      using ex that by (cases t) (simp_all add: value_of_def)
    have sel: "map (\<lambda>e. (fst e, real_of_int (float64_of_int (snd e))))
          (filter (\<lambda>e. case t of PyInt k \<Rightarrow> snd e \<ge> k
                              | PyFloat x \<Rightarrow> real_of_int (float64_of_int (snd e)) \<ge> x) (edges M))
        = filter (\<lambda>e. snd e \<ge> value_of t) (map (\<lambda>e. (fst e, real_of_int (snd e))) (edges M))"
      by (rule exact_selected [where Q = "\<lambda>x. x \<ge> value_of t", OF ex]) (rule pq)
    show ?thesis
      unfolding Int64 at_weight_edges_Int64
      by (simp add: shape_eliminate_zeros edges_eliminate_zeros wshape_def weighted_edges_def
          stored_selected [OF real_float64_eq_0_iff] sel)
  next
    case (Float64 F)
    have "as_float64 t = value_of t"
      using assms(2) by (cases t) (simp_all add: as_float64_def value_of_def exact_number_def)
    then show ?thesis
      unfolding Float64 at_weight_edges_Float64
      by (simp add: shape_eliminate_zeros edges_eliminate_zeros wshape_def weighted_edges_def
          stored_selected [where c = "\<lambda>d. d"])
  qed
  show "\<exists>B. at_weight_edges A t ''distance'' = Inr B \<and> shape B = wshape A
           \<and> stored B = filter (\<lambda>e. snd e \<le> value_of t) (weighted_edges A) \<and> edges B = stored B"
  proof (cases A)
    case (Int64 M)
    have ex: "\<forall>d \<in> set (data M). float64_of_int d = d"
      using assms(1) Int64 by (simp add: exact_weights_def)
    have pq: "(case t of PyInt k \<Rightarrow> d \<le> k | PyFloat x \<Rightarrow> real_of_int (float64_of_int d) \<le> x)
        = (real_of_int d \<le> value_of t)" if "d \<in> set (data M)" for d
      using ex that by (cases t) (simp_all add: value_of_def)
    have sel: "map (\<lambda>e. (fst e, real_of_int (float64_of_int (snd e))))
          (filter (\<lambda>e. case t of PyInt k \<Rightarrow> snd e \<le> k
                              | PyFloat x \<Rightarrow> real_of_int (float64_of_int (snd e)) \<le> x) (edges M))
        = filter (\<lambda>e. snd e \<le> value_of t) (map (\<lambda>e. (fst e, real_of_int (snd e))) (edges M))"
      by (rule exact_selected [where Q = "\<lambda>x. x \<le> value_of t", OF ex]) (rule pq)
    show ?thesis
      unfolding Int64 at_weight_edges_Int64
      by (simp add: shape_eliminate_zeros edges_eliminate_zeros wshape_def weighted_edges_def
          stored_selected [OF real_float64_eq_0_iff] sel)
  next
    case (Float64 F)
    have "as_float64 t = value_of t"
      using assms(2) by (cases t) (simp_all add: as_float64_def value_of_def exact_number_def)
    then show ?thesis
      unfolding Float64 at_weight_edges_Float64
      by (simp add: shape_eliminate_zeros edges_eliminate_zeros wshape_def weighted_edges_def
          stored_selected [where c = "\<lambda>d. d"])
  qed
qed

text \<open>
  C4 (amended).  For every sparse weighted matrix whose weights the conversion to 64-bit
  floats leaves as they are (every matrix of floats, and every matrix of integers of
  magnitude at most \<open>2 ^ 53\<close>) and every such threshold \<open>t\<close>, \<^verbatim>\<open>at_weight_edges\<close> returns
  a matrix of the same shape whose stored entries are exactly the edges of the input (its
  nonzero stored entries) with weight \<open>\<ge> t\<close> under \<^verbatim>\<open>strength\<close>, and with weight \<open>\<le> t\<close>
  under \<^verbatim>\<open>distance\<close>, each at its position, in storage order and with its original weight;
  every other position is removed from the stored structure, so that no stored entry of
  the result is zero.  For every matrix of integers and every integer threshold the stored
  entries are the edges selected in that way, each with its weight converted to a 64-bit
  float.  Any other method raises \<^verbatim>\<open>ValueError\<close>.
\<close>

theorem at_weight_edges_retains:
  "(exact_weights A \<and> exact_number t \<longrightarrow>
      (\<exists>B. at_weight_edges A t ''strength'' = Inr B \<and> shape B = wshape A
           \<and> stored B = filter (\<lambda>e. snd e \<ge> value_of t) (weighted_edges A) \<and> edges B = stored B)
    \<and> (\<exists>B. at_weight_edges A t ''distance'' = Inr B \<and> shape B = wshape A
           \<and> stored B = filter (\<lambda>e. snd e \<le> value_of t) (weighted_edges A) \<and> edges B = stored B))
   \<and> (\<exists>B. at_weight_edges (Int64 M) (PyInt k) ''strength'' = Inr B \<and> shape B = shape M
           \<and> stored B = map (\<lambda>e. (fst e, real_of_int (float64_of_int (snd e))))
                          (filter (\<lambda>e. snd e \<ge> k) (edges M))
           \<and> edges B = stored B)
   \<and> (\<exists>B. at_weight_edges (Int64 M) (PyInt k) ''distance'' = Inr B \<and> shape B = shape M
           \<and> stored B = map (\<lambda>e. (fst e, real_of_int (float64_of_int (snd e))))
                          (filter (\<lambda>e. snd e \<le> k) (edges M))
           \<and> edges B = stored B)
   \<and> (\<bar>d\<bar> \<le> 2 ^ 53 \<longrightarrow> float64_of_int d = d)
   \<and> (m \<noteq> ''strength'' \<and> m \<noteq> ''distance'' \<longrightarrow> at_weight_edges A t m = Inl ValueError)"
proof -
  have "\<exists>B. at_weight_edges (Int64 M) (PyInt k) ''strength'' = Inr B \<and> shape B = shape M
           \<and> stored B = map (\<lambda>e. (fst e, real_of_int (float64_of_int (snd e))))
                          (filter (\<lambda>e. snd e \<ge> k) (edges M))
           \<and> edges B = stored B"
    unfolding at_weight_edges_Int64
    by (simp add: shape_eliminate_zeros edges_eliminate_zeros
        stored_selected [OF real_float64_eq_0_iff])
  moreover have "\<exists>B. at_weight_edges (Int64 M) (PyInt k) ''distance'' = Inr B \<and> shape B = shape M
           \<and> stored B = map (\<lambda>e. (fst e, real_of_int (float64_of_int (snd e))))
                          (filter (\<lambda>e. snd e \<le> k) (edges M))
           \<and> edges B = stored B"
    unfolding at_weight_edges_Int64
    by (simp add: shape_eliminate_zeros edges_eliminate_zeros
        stored_selected [OF real_float64_eq_0_iff])
  ultimately show ?thesis
    using at_weight_edges_exact [of A t] float64_of_int_exact [of d] at_weight_edges_other [of m A t]
    by blast
qed

theorem at_weight_edges_retains_witness:
  "at_weight_edges (Int64 \<lparr>shape = (2, 2), coords = [(0, 1), (1, 0)], data = [1, 5]\<rparr>) (PyInt 3)
       ''strength''
     = Inr \<lparr>shape = (2, 2), coords = [(1, 0)], data = [5]\<rparr>
   \<and> at_weight_edges (Float64 \<lparr>shape = (2, 2), coords = [(0, 1), (1, 0)], data = [1 / 2, 5]\<rparr>)
       (PyFloat 3) ''distance''
     = Inr \<lparr>shape = (2, 2), coords = [(0, 1)], data = [1 / 2]\<rparr>
   \<and> at_weight_edges (Int64 \<lparr>shape = (2, 2), coords = [(0, 1), (1, 0)], data = [1, 5]\<rparr>) (PyInt 3)
       ''weight''
     = Inl ValueError"
proof -
  define A where "A = Int64 \<lparr>shape = (2, 2), coords = [(0, 1), (1, 0)], data = [1, 5]\<rparr>"
  define F where "F = Float64 \<lparr>shape = (2, 2), coords = [(0, 1), (1, 0)], data = [1 / 2, 5]\<rparr>"
  have exA: "exact_weights A \<and> exact_number (PyInt 3)"
    by (simp add: A_def exact_weights_def exact_number_def float64_of_int_exact)
  have exF: "exact_weights F \<and> exact_number (PyFloat 3)"
    by (simp add: F_def exact_weights_def exact_number_def)
  obtain B where B: "at_weight_edges A (PyInt 3) ''strength'' = Inr B" "shape B = wshape A"
      "stored B = filter (\<lambda>e. snd e \<ge> value_of (PyInt 3)) (weighted_edges A)"
    using at_weight_edges_retains [where A = A and t = "PyInt 3" and m = "''weight''"] exA by blast
  obtain C where C: "at_weight_edges F (PyFloat 3) ''distance'' = Inr C" "shape C = wshape F"
      "stored C = filter (\<lambda>e. snd e \<le> value_of (PyFloat 3)) (weighted_edges F)"
    using at_weight_edges_retains [where A = F and t = "PyFloat 3"] exF by blast
  have lenB: "length (coords B) = length (data B)" and lenC: "length (coords C) = length (data C)"
    using B(1) C(1)
    by (auto simp: at_weight_edges_def A_def F_def eliminate_zeros_lengths split: if_splits)
  have "stored B = [((1, 0), 5)]"
    unfolding B(3) by (simp add: A_def weighted_edges_def edges_def stored_def value_of_def)
  then have "B = \<lparr>shape = (2, 2), coords = [(1, 0)], data = [5]\<rparr>"
    using B(2) lenB by (intro sparse_eq_stored) (simp_all add: stored_def A_def wshape_def)
  moreover have "stored C = [((0, 1), 1 / 2)]"
    unfolding C(3) by (simp add: F_def weighted_edges_def edges_def stored_def value_of_def)
  then have "C = \<lparr>shape = (2, 2), coords = [(0, 1)], data = [1 / 2]\<rparr>"
    using C(2) lenC by (intro sparse_eq_stored) (simp_all add: stored_def F_def wshape_def)
  moreover have "at_weight_edges A (PyInt 3) ''weight'' = Inl ValueError"
    using at_weight_edges_retains [where A = A and t = "PyInt 3" and m = "''weight''"] by simp
  ultimately show ?thesis using B(1) C(1) unfolding A_def F_def by simp
qed

theorem at_weight_edges_retains_counterexample:
  "at_weight_edges (Int64 \<lparr>shape = (2, 2), coords = [(0, 1)], data = [9007199254740993]\<rparr>)
       (PyInt 0) ''strength''
     = Inr \<lparr>shape = (2, 2), coords = [(0, 1)], data = [9007199254740992]\<rparr>
   \<and> at_weight_edges (Float64 \<lparr>shape = (2, 2), coords = [(0, 1)], data = [9007199254740992]\<rparr>)
       (PyInt 9007199254740993) ''strength''
     = Inr \<lparr>shape = (2, 2), coords = [(0, 1)], data = [9007199254740992]\<rparr>
   \<and> at_weight_edges (Int64 \<lparr>shape = (2, 2), coords = [(0, 1)], data = [9007199254740995]\<rparr>)
       (PyFloat 9007199254740996) ''strength''
     = Inr \<lparr>shape = (2, 2), coords = [(0, 1)], data = [9007199254740996]\<rparr>"
  by (simp add: at_weight_edges_Int64 at_weight_edges_Float64 as_float64_def
      float64_of_int_examples eliminate_zeros_def)

text \<open>Two calls in sequence, for each kind of matrix.\<close>

lemma twice_Int64:
  assumes "\<And>d. d \<in> set (data M) \<Longrightarrow>
      ((case t of PyInt k \<Rightarrow> d \<ge> k | PyFloat x \<Rightarrow> real_of_int (float64_of_int d) \<ge> x)
        \<and> real_of_int (float64_of_int d) \<ge> as_float64 t')
      = (case u of PyInt k \<Rightarrow> d \<ge> k | PyFloat x \<Rightarrow> real_of_int (float64_of_int d) \<ge> x)"
  shows "twice (Int64 M) t t' ''strength'' = at_weight_edges (Int64 M) u ''strength''"
  unfolding twice_def at_weight_edges_Int64 and_then_def sum.case at_weight_edges_Float64
  by (simp only: sum.inject, rule selected_twice [OF real_float64_eq_0_iff _ refl]) (rule assms)

lemma twice_Int64_distance:
  assumes "\<And>d. d \<in> set (data M) \<Longrightarrow>
      ((case t of PyInt k \<Rightarrow> d \<le> k | PyFloat x \<Rightarrow> real_of_int (float64_of_int d) \<le> x)
        \<and> real_of_int (float64_of_int d) \<le> as_float64 t')
      = (case u of PyInt k \<Rightarrow> d \<le> k | PyFloat x \<Rightarrow> real_of_int (float64_of_int d) \<le> x)"
  shows "twice (Int64 M) t t' ''distance'' = at_weight_edges (Int64 M) u ''distance''"
  unfolding twice_def at_weight_edges_Int64 and_then_def sum.case at_weight_edges_Float64
  by (simp only: sum.inject, rule selected_twice [OF real_float64_eq_0_iff _ refl]) (rule assms)

lemma twice_Float64:
  assumes "as_float64 t \<le> as_float64 t'"
  shows "twice (Float64 F) t t' ''strength'' = at_weight_edges (Float64 F) t' ''strength''"
  unfolding twice_def at_weight_edges_Float64 and_then_def sum.case
  by (simp only: sum.inject, rule selected_twice [where c = "\<lambda>d. d", OF _ _ refl])
    (use assms in auto)

lemma twice_Float64_distance:
  assumes "as_float64 t' \<le> as_float64 t"
  shows "twice (Float64 F) t t' ''distance'' = at_weight_edges (Float64 F) t' ''distance''"
  unfolding twice_def at_weight_edges_Float64 and_then_def sum.case
  by (simp only: sum.inject, rule selected_twice [where c = "\<lambda>d. d", OF _ _ refl])
    (use assms in auto)

lemma twice_same:
  "twice A t t method = at_weight_edges A t method"
proof -
  consider "method = ''strength''" | "method = ''distance''"
    | "method \<noteq> ''strength''" "method \<noteq> ''distance''" by blast
  then show ?thesis
  proof cases
    case 1
    show ?thesis
    proof (cases A)
      case (Int64 M)
      show ?thesis unfolding Int64 1
        by (rule twice_Int64) (cases t; auto simp: as_float64_def float64_of_int_mono)
    next
      case (Float64 F)
      show ?thesis unfolding Float64 1 by (rule twice_Float64) simp
    qed
  next
    case 2
    show ?thesis
    proof (cases A)
      case (Int64 M)
      show ?thesis unfolding Int64 2
        by (rule twice_Int64_distance) (cases t; auto simp: as_float64_def float64_of_int_mono)
    next
      case (Float64 F)
      show ?thesis unfolding Float64 2 by (rule twice_Float64_distance) simp
    qed
  next
    case 3
    then show ?thesis by (simp add: twice_def at_weight_edges_other and_then_def)
  qed
qed

lemma twice_floats:
  "x \<le> x' \<Longrightarrow> twice A (PyFloat x) (PyFloat x') ''strength'' = at_weight_edges A (PyFloat x') ''strength''"
  "x' \<le> x \<Longrightarrow> twice A (PyFloat x) (PyFloat x') ''distance'' = at_weight_edges A (PyFloat x') ''distance''"
proof -
  show "twice A (PyFloat x) (PyFloat x') ''strength'' = at_weight_edges A (PyFloat x') ''strength''"
    if "x \<le> x'"
  proof (cases A)
    case (Int64 M)
    show ?thesis unfolding Int64
      by (rule twice_Int64) (use that in \<open>auto simp: as_float64_def\<close>)
  next
    case (Float64 F)
    show ?thesis unfolding Float64
      by (rule twice_Float64) (use that in \<open>simp add: as_float64_def\<close>)
  qed
  show "twice A (PyFloat x) (PyFloat x') ''distance'' = at_weight_edges A (PyFloat x') ''distance''"
    if "x' \<le> x"
  proof (cases A)
    case (Int64 M)
    show ?thesis unfolding Int64
      by (rule twice_Int64_distance) (use that in \<open>auto simp: as_float64_def\<close>)
  next
    case (Float64 F)
    show ?thesis unfolding Float64
      by (rule twice_Float64_distance) (use that in \<open>simp add: as_float64_def\<close>)
  qed
qed

lemma twice_exact_integers:
  assumes "exact_weights (Int64 M)" and "exact_number (PyInt k')"
  shows "k \<le> k' \<Longrightarrow>
      twice (Int64 M) (PyInt k) (PyInt k') ''strength'' = at_weight_edges (Int64 M) (PyInt k') ''strength''"
    and "k' \<le> k \<Longrightarrow>
      twice (Int64 M) (PyInt k) (PyInt k') ''distance'' = at_weight_edges (Int64 M) (PyInt k') ''distance''"
proof -
  have ex: "float64_of_int d = d" if "d \<in> set (data M)" for d
    using assms(1) that by (simp add: exact_weights_def)
  have k': "float64_of_int k' = k'" using assms(2) by (simp add: exact_number_def)
  show "twice (Int64 M) (PyInt k) (PyInt k') ''strength'' = at_weight_edges (Int64 M) (PyInt k') ''strength''"
    if "k \<le> k'"
    by (rule twice_Int64) (use that in \<open>auto simp: as_float64_def ex k'\<close>)
  show "twice (Int64 M) (PyInt k) (PyInt k') ''distance'' = at_weight_edges (Int64 M) (PyInt k') ''distance''"
    if "k' \<le> k"
    by (rule twice_Int64_distance) (use that in \<open>auto simp: as_float64_def ex k'\<close>)
qed

text \<open>
  C9 (amended).  Thresholding is idempotent: for every sparse weighted matrix, of integers
  or of floats, every threshold and every method, a second call of \<^verbatim>\<open>at_weight_edges\<close>
  with the same threshold and method on the result of the first gives that result again
  (shape, stored positions and weights).  Thresholds compose, so that under \<^verbatim>\<open>strength\<close>
  thresholding at \<open>t\<close> and then at \<open>t' \<ge> t\<close> gives the same matrix as thresholding the
  original at \<open>t'\<close>, and dually under \<^verbatim>\<open>distance\<close> with \<open>t' \<le> t\<close>, in these cases: the
  two thresholds are floats; or they are integers and the matrix holds floats; or they
  are integers, the matrix holds integers, and the conversion to 64-bit floats leaves the
  weights of the matrix and \<open>t'\<close> as they are (as it does up to the magnitude \<open>2 ^ 53\<close>).
\<close>

theorem at_weight_edges_compose:
  "twice A t t m = at_weight_edges A t m
   \<and> (x \<le> x' \<longrightarrow>
        twice A (PyFloat x) (PyFloat x') ''strength'' = at_weight_edges A (PyFloat x') ''strength'')
   \<and> (x' \<le> x \<longrightarrow>
        twice A (PyFloat x) (PyFloat x') ''distance'' = at_weight_edges A (PyFloat x') ''distance'')
   \<and> (k \<le> k' \<longrightarrow>
        twice (Float64 F) (PyInt k) (PyInt k') ''strength''
          = at_weight_edges (Float64 F) (PyInt k') ''strength'')
   \<and> (k' \<le> k \<longrightarrow>
        twice (Float64 F) (PyInt k) (PyInt k') ''distance''
          = at_weight_edges (Float64 F) (PyInt k') ''distance'')
   \<and> (k \<le> k' \<and> exact_weights (Int64 M) \<and> exact_number (PyInt k') \<longrightarrow>
        twice (Int64 M) (PyInt k) (PyInt k') ''strength''
          = at_weight_edges (Int64 M) (PyInt k') ''strength'')
   \<and> (k' \<le> k \<and> exact_weights (Int64 M) \<and> exact_number (PyInt k') \<longrightarrow>
        twice (Int64 M) (PyInt k) (PyInt k') ''distance''
          = at_weight_edges (Int64 M) (PyInt k') ''distance'')
   \<and> (\<bar>d\<bar> \<le> 2 ^ 53 \<longrightarrow> float64_of_int d = d)"
proof -
  have "twice (Float64 F) (PyInt k) (PyInt k') ''strength''
          = at_weight_edges (Float64 F) (PyInt k') ''strength''" if "k \<le> k'"
    by (rule twice_Float64) (use that in \<open>simp add: as_float64_def float64_of_int_mono\<close>)
  moreover have "twice (Float64 F) (PyInt k) (PyInt k') ''distance''
          = at_weight_edges (Float64 F) (PyInt k') ''distance''" if "k' \<le> k"
    by (rule twice_Float64_distance) (use that in \<open>simp add: as_float64_def float64_of_int_mono\<close>)
  ultimately show ?thesis
    using twice_same [of A t m] twice_floats [where x = x and x' = x' and A = A] twice_exact_integers [where M = M and k = k and k' = k']
      float64_of_int_exact [of d]
    by blast
qed

theorem at_weight_edges_compose_witness:
  "twice (Int64 \<lparr>shape = (2, 2), coords = [(0, 1), (1, 0)], data = [2, 5]\<rparr>) (PyInt 1) (PyInt 3)
       ''strength''
     = Inr \<lparr>shape = (2, 2), coords = [(1, 0)], data = [5]\<rparr>
   \<and> twice (Float64 \<lparr>shape = (2, 2), coords = [(0, 1), (1, 0)], data = [2, 5]\<rparr>) (PyFloat 7)
       (PyFloat 3) ''distance''
     = Inr \<lparr>shape = (2, 2), coords = [(0, 1)], data = [2]\<rparr>
   \<and> twice (Float64 \<lparr>shape = (2, 2), coords = [(0, 1), (1, 0)], data = [2, 5]\<rparr>) (PyInt 1)
       (PyInt 3) ''strength''
     = Inr \<lparr>shape = (2, 2), coords = [(1, 0)], data = [5]\<rparr>"
proof -
  define M :: "int sparse" where "M = \<lparr>shape = (2, 2), coords = [(0, 1), (1, 0)], data = [2, 5]\<rparr>"
  define F :: "real sparse" where "F = \<lparr>shape = (2, 2), coords = [(0, 1), (1, 0)], data = [2, 5]\<rparr>"
  have ex: "exact_weights (Int64 M) \<and> exact_number (PyInt 3)"
    by (simp add: M_def exact_weights_def exact_number_def float64_of_int_exact)
  have "twice (Int64 M) (PyInt 1) (PyInt 3) ''strength'' = at_weight_edges (Int64 M) (PyInt 3) ''strength''"
    using at_weight_edges_compose [where M = M and k = 1 and k' = 3] ex by simp
  moreover have "twice (Float64 F) (PyFloat 7) (PyFloat 3) ''distance''
      = at_weight_edges (Float64 F) (PyFloat 3) ''distance''"
    using at_weight_edges_compose [where A = "Float64 F" and x = 7 and x' = 3] by simp
  moreover have "twice (Float64 F) (PyInt 1) (PyInt 3) ''strength''
      = at_weight_edges (Float64 F) (PyInt 3) ''strength''"
    using at_weight_edges_compose [where F = F and k = 1 and k' = 3] by simp
  ultimately show ?thesis
    unfolding M_def F_def
    by (simp add: at_weight_edges_Int64 at_weight_edges_Float64 as_float64_def
        float64_of_int_exact eliminate_zeros_def)
qed

theorem at_weight_edges_compose_counterexample:
  "twice (Int64 \<lparr>shape = (2, 2), coords = [(0, 1)], data = [9007199254740995]\<rparr>)
       (PyInt 0) (PyInt 9007199254740996) ''strength''
     = Inr \<lparr>shape = (2, 2), coords = [(0, 1)], data = [9007199254740996]\<rparr>
   \<and> at_weight_edges (Int64 \<lparr>shape = (2, 2), coords = [(0, 1)], data = [9007199254740995]\<rparr>)
       (PyInt 9007199254740996) ''strength''
     = Inr \<lparr>shape = (2, 2), coords = [], data = []\<rparr>
   \<and> twice (Int64 \<lparr>shape = (2, 2), coords = [(0, 1)], data = [9007199254740992]\<rparr>)
       (PyInt 0) (PyInt 9007199254740993) ''strength''
     = Inr \<lparr>shape = (2, 2), coords = [(0, 1)], data = [9007199254740992]\<rparr>
   \<and> at_weight_edges (Int64 \<lparr>shape = (2, 2), coords = [(0, 1)], data = [9007199254740992]\<rparr>)
       (PyInt 9007199254740993) ''strength''
     = Inr \<lparr>shape = (2, 2), coords = [], data = []\<rparr>"
  by (simp add: twice_def and_then_def at_weight_edges_Int64 at_weight_edges_Float64 as_float64_def
      float64_of_int_examples eliminate_zeros_def)

section \<open>Properties of the effects\<close>

lemma bind_Inr: "bind (evs, Inr v) f = (evs @ fst (f v), snd (f v))"
  by (simp add: bind_def split: prod.splits)

lemma bind_Inl: "bind (evs, Inl e) f = (evs, Inl e)"
  by (simp add: bind_def)

lemmas run_simps = bind_Inr bind_Inl ret_def raise_def emit_def lift_def py_assert_def


section \<open>Properties of the filtration\<close>
















text \<open>
  C10 (amended).  For a weighted matrix with no stored entries, \<^verbatim>\<open>filtration_weights\<close>
  returns the empty sequence of thresholds for both methods, without raising (the function
  logs nothing), and \<^verbatim>\<open>filtered_simplex_counts\<close> with \<^verbatim>\<open>binned=False\<close> (the default) has
  no event at all (no call of the solver, no warning) and returns the empty table.
\<close>

theorem empty_matrix_filtration:
  assumes "stored_numbers adj = []"
  shows "filtration_weights adj ''strength'' = Inr []
       \<and> filtration_weights adj ''distance'' = Inr []
       \<and> filtered_simplex_counts solver centres adj ''strength'' False n_bins threads = ([], Inr [])
       \<and> filtered_simplex_counts solver centres adj ''distance'' False n_bins threads = ([], Inr [])"
proof -
  have "unique_data adj = []"
    using assms by (cases adj) (simp_all add: unique_data_def stored_numbers_def np_unique_def)
  then show ?thesis
    by (simp add: filtered_simplex_counts_def filtration_weights_def run_simps from_dict_fillna_def)
qed

theorem empty_matrix_filtration_witness:
  "filtration_weights (Int64 no_edges) ''strength'' = Inr []
   \<and> filtered_simplex_counts sample_solver sample_centres (Int64 no_edges) ''strength'' False 10 1
       = ([], Inr [])
   \<and> filtered_simplex_counts sample_solver sample_centres (Int64 no_edges) ''distance'' False 10 1
       = ([], Inr [])"
proof -
  have h: "stored_numbers (Int64 no_edges) = []" by (simp add: stored_numbers_def no_edges_def)
  show ?thesis
    using empty_matrix_filtration [OF h, of sample_solver sample_centres 10 1] by simp
qed

theorem empty_matrix_filtration_counterexample:
  "weighted_edges (Int64 stored_zero) = []
   \<and> filtration_weights (Int64 stored_zero) ''strength'' = Inr [PyInt 0]
   \<and> filtered_simplex_counts sample_solver sample_centres (Int64 stored_zero) ''strength'' False 10 1
       = ([Call (directed_request \<lparr>shape = (2, 2), coords = [], data = []\<rparr> 1)],
          Inr [(PyInt 0, [2, 0])])
   \<and> weighted_edges (Int64 no_edges) = []
   \<and> filtered_simplex_counts sample_solver sample_centres (Int64 no_edges) ''strength'' True 10 1
       = ([], Inl ValueError)"
  by code_simp

section \<open>Properties of the symmetric closure\<close>

lemma set_positions: "set (positions s) = {(i, j). i < fst s \<and> j < snd s}"
  by (auto simp: positions_def)

lemma zip_map_const: "zip ks (map (\<lambda>_. c) ks) = map (\<lambda>k. (k, c)) ks"
  by (induction ks) auto

text \<open>
  What the code computes: position \<open>(i, j)\<close> of the result is \<^verbatim>\<open>True\<close> exactly when the
  sum \<open>A[i,j] + A[j,i]\<close> is nonzero.
\<close>

lemma underlying_undirected_matrix_entries:
  fixes adj :: "('w::comm_monoid_add) sparse"
  assumes "fst (shape adj) = snd (shape adj)"
  shows "\<exists>evs u. underlying_undirected_matrix adj = ((evs :: 'c event list), Inr u)
    \<and> shape u = shape adj
    \<and> (\<forall>i j. bool_entry u i j \<longleftrightarrow>
          i < fst (shape adj) \<and> j < fst (shape adj) \<and> entry adj i j + entry adj j i \<noteq> 0)"
proof -
  define keep where
    "keep = filter (\<lambda>(i, j). entry adj i j + entry adj j i \<noteq> 0) (positions (shape adj))"
  define u where "u = \<lparr>shape = shape adj, coords = keep, data = map (\<lambda>_. True) keep\<rparr>"
  have "\<exists>evs. underlying_undirected_matrix adj = ((evs :: 'c event list), Inr u)"
    using assms by (simp add: underlying_undirected_matrix_def run_simps Let_def u_def keep_def)
  moreover have "shape u = shape adj" by (simp add: u_def)
  moreover have "bool_entry u i j \<longleftrightarrow> (i, j) \<in> set keep" for i j
    by (auto simp: bool_entry_def stored_def u_def zip_map_const)
  then have "bool_entry u i j \<longleftrightarrow>
      i < fst (shape adj) \<and> j < fst (shape adj) \<and> entry adj i j + entry adj j i \<noteq> 0" for i j
    using assms by (auto simp: keep_def set_positions)
  ultimately show ?thesis by blast
qed

text \<open>
  C7 (the code departs from the claim).  The claim is the documented contract: the result
  is the symmetric closure, \<^verbatim>\<open>True\<close> at \<open>(i, j)\<close> exactly when \<open>A[i,j]\<close> or \<open>A[j,i]\<close> is
  nonzero.  The code adds the weights before the cast to \<^verbatim>\<open>bool\<close>, so two opposite
  weights cancel: for the square matrix with zero diagonal \<open>A[0,1] = 1\<close>, \<open>A[1,0] = -1\<close>
  both entries are nonzero and the result stores nothing, without any warning.
\<close>

theorem underlying_undirected_matrix_cancels:
  "entry opposite_weights 0 1 = 1 \<and> entry opposite_weights 1 0 = - 1
   \<and> shape opposite_weights = (2, 2) \<and> count_nonzero (diagonal opposite_weights) = 0
   \<and> underlying_undirected_matrix opposite_weights
       = (([] :: int event list), Inr \<lparr>shape = (2, 2), coords = [], data = []\<rparr>)"
  by code_simp

section \<open>Properties of the approximation chunker\<close>

lemma length_np_diff: "length (np_diff a) = length a - 1"
  by (simp add: np_diff_def)

lemma slice_indx_alt:
  "slice_indx a = map Suc (filter (\<lambda>i. a ! Suc i \<noteq> a ! i) [0..<length a - 1])"
proof -
  have "filter (\<lambda>i. np_diff a ! i \<noteq> 0) [0..<length a - 1]
      = filter (\<lambda>i. a ! Suc i \<noteq> a ! i) [0..<length a - 1]"
    by (rule filter_cong) (auto simp: np_diff_def)
  then show ?thesis by (simp add: slice_indx_def length_np_diff)
qed

lemma sorted_wrt_filter_upt: "sorted_wrt (<) (filter P [i..<j])"
  by (simp add: sorted_wrt_filter)

lemma slice_indx_sorted: "sorted_wrt (<) (slice_indx a)"
  unfolding slice_indx_alt
  by (simp add: sorted_wrt_map sorted_wrt_filter)

lemma slice_indx_set:
  "q \<in> set (slice_indx a) \<longleftrightarrow> 0 < q \<and> q < length a \<and> a ! q \<noteq> a ! (q - 1)"
  unfolding slice_indx_alt
  apply (auto simp: image_iff)
  apply (rule_tac x = "q - 1" in exI)
  apply auto
  done

lemma div_points_sorted:
  assumes "a \<noteq> []"
  shows "sorted_wrt (<) (div_points a)"
  using assms slice_indx_sorted [of a]
  by (auto simp: div_points_def sorted_wrt_append slice_indx_set)

lemma length_div_points: "length (div_points a) = length (slice_indx a) + 2"
  by (simp add: div_points_def)

lemma div_points_first: "div_points a ! 0 = 0"
  by (simp add: div_points_def)

lemma div_points_last: "div_points a ! Suc (length (slice_indx a)) = length a"
  by (simp add: div_points_def nth_append)

lemma div_points_step:
  assumes "a \<noteq> []" and "i \<le> length (slice_indx a)"
  shows "div_points a ! i < div_points a ! Suc i"
  using div_points_sorted [OF assms(1)] assms(2)
  by (simp add: sorted_wrt_iff_nth_less length_div_points)

lemma div_points_le_length:
  assumes "a \<noteq> []" and "i \<le> Suc (length (slice_indx a))"
  shows "div_points a ! i \<le> length a"
proof (cases "i = Suc (length (slice_indx a))")
  case True
  then show ?thesis by (simp add: div_points_last)
next
  case False
  then have "i < Suc (length (slice_indx a))" using assms(2) by simp
  then have "div_points a ! i < div_points a ! Suc (length (slice_indx a))"
    using div_points_sorted [OF assms(1)]
    by (simp add: sorted_wrt_iff_nth_less length_div_points)
  then show ?thesis by (simp add: div_points_last)
qed

lemma strict_sorted_gap:
  assumes "sorted_wrt (<) (l :: nat list)" and "Suc i < length l"
    and "l ! i < p" and "p < l ! Suc i"
  shows "p \<notin> set l"
proof
  assume "p \<in> set l"
  then obtain k where k: "k < length l" "l ! k = p" by (auto simp: in_set_conv_nth)
  have "i < k"
  proof (rule ccontr)
    assume "\<not> i < k"
    then have "k \<le> i" by simp
    then have "l ! k \<le> l ! i"
      using assms(1,2) by (cases "k = i") (auto simp: sorted_wrt_iff_nth_less intro: less_imp_le)
    with assms(3) k(2) show False by simp
  qed
  moreover have "k < Suc i"
  proof (rule ccontr)
    assume "\<not> k < Suc i"
    then have "Suc i \<le> k" by simp
    then have "l ! Suc i \<le> l ! k"
      using assms(1) k(1) by (cases "k = Suc i") (auto simp: sorted_wrt_iff_nth_less intro: less_imp_le)
    with assms(4) k(2) show False by simp
  qed
  ultimately show False by simp
qed

lemma constant_on_chunk:
  assumes "a \<noteq> []" and "i \<le> length (slice_indx a)"
    and "div_points a ! i \<le> p" and "p < div_points a ! Suc i"
  shows "a ! p = a ! (div_points a ! i)"
  using assms(3,4)
proof (induction p)
  case 0
  then show ?case by simp
next
  case (Suc p)
  show ?case
  proof (cases "div_points a ! i = Suc p")
    case True
    then show ?thesis by simp
  next
    case False
    then have lo: "div_points a ! i \<le> p" "div_points a ! i < Suc p" using Suc.prems by simp_all
    have "Suc p \<notin> set (div_points a)"
      using strict_sorted_gap [OF div_points_sorted [OF assms(1)], of i "Suc p"] assms(2) lo Suc.prems
      by (simp add: length_div_points)
    then have "Suc p \<notin> set (slice_indx a)" by (simp add: div_points_def)
    moreover have "Suc p < length a"
      using Suc.prems(2) div_points_le_length [OF assms(1), of "Suc i"] assms(2) by simp
    ultimately have "a ! Suc p = a ! p" by (simp add: slice_indx_set)
    with Suc.IH lo Suc.prems show ?thesis by simp
  qed
qed

lemma py_slice_map_upt:
  assumes "e \<le> n"
  shows "py_slice (map f [0..<n]) s e = map f [s..<e]"
proof (cases "s \<le> e")
  case True
  then have "take (e - s) [s..<n] = [s..<e]"
    using assms by (simp add: take_upt)
  then show ?thesis by (simp add: py_slice_def take_map drop_map)
next
  case False
  then show ?thesis by (simp add: py_slice_def)
qed

lemma np_split_dims:
  assumes "a \<noteq> []"
  shows "np_split (map f [0..<length a]) (slice_indx a)
       = map (\<lambda>i. map f [div_points a ! i..<div_points a ! Suc i]) [0..<Suc (length (slice_indx a))]"
proof -
  have "py_slice (map f [0..<length a]) (div_points a ! i) (div_points a ! Suc i)
      = map f [div_points a ! i..<div_points a ! Suc i]" if "i < Suc (length (slice_indx a))" for i
    using that div_points_le_length [OF assms, of "Suc i"] by (intro py_slice_map_upt) simp
  then show ?thesis
    by (simp add: np_split_def Let_def div_points_def [symmetric] length_div_points)
qed

lemma collect_all_Inr:
  assumes "\<And>x. x \<in> set xs \<Longrightarrow> f x = Inr (g x)"
  shows "collect f xs = Inr (map g xs)"
  using assms by (induction xs) (simp_all add: and_then_def)

lemma py_index_last:
  assumes "xs \<noteq> []"
  shows "py_index xs (- 1) = Inr (last xs)"
proof -
  have "nat (int (length xs) - 1) = length xs - 1" by simp
  moreover have "Suc 0 \<le> length xs" using assms by (cases xs) simp_all
  ultimately show ?thesis using assms by (simp add: py_index_def last_conv_nth)
qed

lemma py_index_nat:
  assumes "i < length xs"
  shows "py_index xs (int i) = Inr (xs ! i)"
  using assms by (simp add: py_index_def)

lemma py_index_first:
  assumes "xs \<noteq> []"
  shows "py_index xs 0 = Inr (hd xs)"
  using assms by (simp add: py_index_def hd_conv_nth)

lemma appended_iff:
  assumes "n > 0"
  shows "dim_less (Fin (int n)) (dim_plus mx (1 - min_dim))
     \<longleftrightarrow> dim_less (Fin (int (n - 1) + min_dim)) mx"
  using assms by (cases mx) (auto simp: of_nat_diff)

lemma length_schedule_chunks: "length (schedule_chunks min_dim a) = Suc (length (slice_indx a))"
  by (simp add: schedule_chunks_def)

lemma schedule_chunks_nth:
  assumes "i \<le> length (slice_indx a)"
  shows "schedule_chunks min_dim a ! i
       = map (\<lambda>k. Fin (int k + min_dim)) [div_points a ! i..<div_points a ! Suc i]"
proof -
  have "i < Suc (length (slice_indx a))" using assms by simp
  then have "[0..<Suc (length (slice_indx a))] ! i = i" by (metis add_0 nth_upt)
  then show ?thesis
    unfolding schedule_chunks_def using assms by (simp del: upt_Suc)
qed

lemma schedule_chunk_nonempty:
  assumes "a \<noteq> []" and "i \<le> length (slice_indx a)"
  shows "schedule_chunks min_dim a ! i \<noteq> []"
  using div_points_step [OF assms] by (simp add: schedule_chunks_nth [OF assms(2)])

lemma schedule_chunk_hd:
  assumes "a \<noteq> []" and "i \<le> length (slice_indx a)"
  shows "hd (schedule_chunks min_dim a ! i) = Fin (int (div_points a ! i) + min_dim)"
  using div_points_step [OF assms]
  by (simp add: schedule_chunks_nth [OF assms(2)] hd_map)

lemma schedule_chunk_last:
  assumes "a \<noteq> []" and "i \<le> length (slice_indx a)"
  shows "last (schedule_chunks min_dim a ! i) = Fin (int (div_points a ! Suc i - 1) + min_dim)"
  using div_points_step [OF assms]
  by (simp add: schedule_chunks_nth [OF assms(2)] last_map)

lemma approx_chunk_schedule:
  assumes "a \<noteq> []" and "j \<le> length (slice_indx a)"
    and "dcs ! j = schedule_chunks min_dim a ! j" and "j < length dcs"
    and "\<not> (dim_less (Fin (int (length a))) (dim_plus mx (1 - min_dim)) \<and> int j = int (length dcs) - 1)"
  shows "approx_chunk min_dim mx a dcs j = Inr (a ! (div_points a ! j))"
proof -
  have lt: "div_points a ! j < length a"
    using div_points_step [OF assms(1,2)] div_points_le_length [OF assms(1), of "Suc j"] assms(2)
    by simp
  have "py_index (dcs ! j) 0 = Inr (Fin (int (div_points a ! j) + min_dim))"
    using schedule_chunk_nonempty [OF assms(1,2)] schedule_chunk_hd [OF assms(1,2)]
    by (simp add: assms(3) py_index_first)
  moreover have "py_index a (int (div_points a ! j)) = Inr (a ! (div_points a ! j))"
    using lt by (rule py_index_nat)
  ultimately show ?thesis
    using assms(5) py_index_last [OF assms(1)] py_index_nat [OF assms(4)]
    by (auto simp: approx_chunk_def and_then_def py_int_def)
qed

lemma chunk_approx_and_dims_explicit:
  assumes "a \<noteq> []" and "last a \<noteq> - 1"
    and "dim_le (Fin (int (length a) - 1)) (dim_plus (of_max_dim max_dim) (- min_dim))"
  shows "chunk_approx_and_dims min_dim max_dim a
       = Inr (if dim_less (Fin (int (length a - 1) + min_dim)) (of_max_dim max_dim)
              then (schedule_chunks min_dim a @ [[Fin (int (length a) + min_dim), of_max_dim max_dim]],
                    schedule_values a @ [- 1])
              else (schedule_chunks min_dim a, schedule_values a))"
proof -
  define mx where "mx = of_max_dim max_dim"
  define m where "m = length (slice_indx a)"
  define sc where "sc = schedule_chunks min_dim a"
  have len: "length sc = Suc m" by (simp add: sc_def m_def length_schedule_chunks)
  have n0: "0 < length a" using assms(1) by simp
  have a3: "dim_le (Fin (int (length a) - 1)) (dim_plus mx (- min_dim))"
    using assms(3) by (simp add: mx_def)
  have split: "np_split (map (\<lambda>k. Fin (int k + min_dim)) [0..<length a]) (slice_indx a) = sc"
    by (simp add: np_split_dims [OF assms(1)] sc_def schedule_chunks_def)
  have sc_ne: "sc \<noteq> []" using len by auto
  have last_sc: "last sc = sc ! m" using len sc_ne by (simp add: last_conv_nth)
  have "last (sc ! m) = Fin (int (div_points a ! Suc m - 1) + min_dim)"
    unfolding sc_def m_def by (rule schedule_chunk_last [OF assms(1)]) simp
  then have top: "last (sc ! m) = Fin (int (length a - 1) + min_dim)"
    by (simp add: m_def div_points_last)
  have ne_m: "sc ! m \<noteq> []"
    unfolding sc_def m_def by (rule schedule_chunk_nonempty [OF assms(1)]) simp
  have idx_last: "py_index sc (- 1) = Inr (sc ! m)"
    using py_index_last [OF sc_ne] last_sc by simp
  have idx_top: "py_index (sc ! m) (- 1) = Inr (Fin (int (length a - 1) + min_dim))"
    using py_index_last [OF ne_m] top by simp
  have plus1: "dim_plus (Fin (int (length a - 1) + min_dim)) 1 = Fin (int (length a) + min_dim)"
    using n0 by (cases "length a") simp_all
  show ?thesis
  proof (cases "dim_less (Fin (int (length a - 1) + min_dim)) mx")
    case True
    define dcs where "dcs = sc @ [[Fin (int (length a) + min_dim), mx]]"
    have cond: "dim_less (Fin (int (length a))) (dim_plus mx (1 - min_dim))"
      using True appended_iff [OF n0] by simp
    have "approx_chunk min_dim mx a dcs j
        = Inr ((if j \<le> m then a ! (div_points a ! j) else - 1))" if "j \<in> set [0..<length dcs]" for j
    proof (cases "j \<le> m")
      case le: True
      have "approx_chunk min_dim mx a dcs j = Inr (a ! (div_points a ! j))"
      proof (rule approx_chunk_schedule [OF assms(1)])
        show "j \<le> length (slice_indx a)" using le by (simp add: m_def)
        show "dcs ! j = schedule_chunks min_dim a ! j"
          using le len by (simp add: dcs_def nth_append sc_def)
        show "j < length dcs" using that by simp
        show "\<not> (dim_less (Fin (int (length a))) (dim_plus mx (1 - min_dim))
               \<and> int j = int (length dcs) - 1)"
          using le len by (simp add: dcs_def)
      qed
      then show ?thesis using le by simp
    next
      case False
      then have "j = Suc m" using that len by (simp add: dcs_def)
      then have "int j = int (length dcs) - 1" using len by (simp add: dcs_def)
      then show ?thesis
        using False cond assms(2) py_index_last [OF assms(1)]
        by (simp add: approx_chunk_def and_then_def)
    qed
    then have "collect (approx_chunk min_dim mx a dcs) [0..<length dcs]
        = Inr (map (\<lambda>j. if j \<le> m then a ! (div_points a ! j) else - 1) [0..<length dcs])"
      by (rule collect_all_Inr)
    also have "map (\<lambda>j. if j \<le> m then a ! (div_points a ! j) else - 1) [0..<length dcs]
        = schedule_values a @ [- 1]"
      using len by (simp add: dcs_def schedule_values_def m_def)
    finally have col: "collect (approx_chunk min_dim mx a dcs) [0..<length dcs]
        = Inr (schedule_values a @ [- 1])" .
    have "chunk_approx_and_dims min_dim max_dim a
        = Inr (sc @ [[Fin (int (length a) + min_dim), mx]], schedule_values a @ [- 1])"
      unfolding chunk_approx_and_dims_def Let_def mx_def [symmetric] split
      by (simp only: assms(2) a3 True simp_thms if_True if_False and_then_def sum.case
          py_index_last [OF assms(1)] idx_last idx_top plus1 col [unfolded dcs_def])
    then show ?thesis using True by (simp add: sc_def mx_def)
  next
    case False
    have cond: "\<not> dim_less (Fin (int (length a))) (dim_plus mx (1 - min_dim))"
      using False appended_iff [OF n0] by simp
    have "approx_chunk min_dim mx a sc j = Inr (a ! (div_points a ! j))"
      if "j \<in> set [0..<length sc]" for j
    proof (rule approx_chunk_schedule [OF assms(1)])
      show "j \<le> length (slice_indx a)" using that len by (auto simp: m_def)
      show "sc ! j = schedule_chunks min_dim a ! j" by (simp add: sc_def)
      show "j < length sc" using that by simp
      show "\<not> (dim_less (Fin (int (length a))) (dim_plus mx (1 - min_dim))
             \<and> int j = int (length sc) - 1)"
        using cond by simp
    qed
    then have "collect (approx_chunk min_dim mx a sc) [0..<length sc]
        = Inr (map (\<lambda>j. a ! (div_points a ! j)) [0..<length sc])"
      by (rule collect_all_Inr)
    then have col: "collect (approx_chunk min_dim mx a sc) [0..<length sc] = Inr (schedule_values a)"
      using len by (simp add: schedule_values_def m_def)
    have "chunk_approx_and_dims min_dim max_dim a = Inr (sc, schedule_values a)"
      unfolding chunk_approx_and_dims_def Let_def mx_def [symmetric] split
      by (simp only: assms(2) a3 False simp_thms if_True if_False and_then_def sum.case
          py_index_last [OF assms(1)] idx_last idx_top col)
    then show ?thesis using False by (simp add: sc_def mx_def)
  qed
qed

lemma length_schedule_values: "length (schedule_values a) = Suc (length (slice_indx a))"
  by (simp add: schedule_values_def)

lemma schedule_values_nth:
  assumes "i \<le> length (slice_indx a)"
  shows "schedule_values a ! i = a ! (div_points a ! i)"
proof -
  have "i < Suc (length (slice_indx a))" using assms by simp
  then have "[0..<Suc (length (slice_indx a))] ! i = i" by (metis add_0 nth_upt)
  then show ?thesis
    unfolding schedule_values_def using assms by (simp del: upt_Suc)
qed

lemma dim_le_Fin_iff: "dim_le (Fin x) (Fin y) \<longleftrightarrow> x \<le> y"
  by simp

text \<open>
  The schedules that do not end in \<open>-1\<close>.  For every non-empty schedule whose last entry
  is not \<open>-1\<close> and every
  range \<open>min_dim \<le> max_dim\<close> (\<open>max_dim\<close> possibly unbounded) with at most
  \<open>max_dim - min_dim + 1\<close> schedule entries, \<^verbatim>\<open>chunk_approx_and_dims\<close> returns chunks
  with one value each; read by their first and last element, the chunks are non-empty,
  start at \<open>min_dim\<close>, each starts one above the end of the one before, and the last
  ends at \<open>max_dim\<close>: every dimension of the range lies in exactly one chunk.  The value
  of a chunk is the schedule's value at each of its dimensions that the schedule covers,
  and \<open>-1\<close> (exact) at the others; when the schedule is shorter than the range, the
  dimensions above it form the final chunk, with the value \<open>-1\<close>.
\<close>

lemma chunk_approx_and_dims_partition:
  assumes "approximation \<noteq> []" and "last approximation \<noteq> - 1"
    and "dim_le (Fin min_dim) (of_max_dim max_dim)"
    and "dim_le (Fin (int (length approximation))) (dim_plus (of_max_dim max_dim) (1 - min_dim))"
  shows "\<exists>dim_chunks approx_chunks.
      chunk_approx_and_dims min_dim max_dim approximation = Inr (dim_chunks, approx_chunks)
    \<and> length approx_chunks = length dim_chunks \<and> dim_chunks \<noteq> [] \<and> [] \<notin> set dim_chunks
    \<and> hd (hd dim_chunks) = Fin min_dim
    \<and> last (last dim_chunks) = of_max_dim max_dim
    \<and> (\<forall>j. Suc j < length dim_chunks \<longrightarrow>
          hd (dim_chunks ! Suc j) = dim_plus (last (dim_chunks ! j)) 1)
    \<and> (\<forall>j < length dim_chunks. dim_le (hd (dim_chunks ! j)) (last (dim_chunks ! j)))
    \<and> (\<forall>j < length dim_chunks. \<forall>k.
          dim_le (hd (dim_chunks ! j)) (Fin (min_dim + int k))
          \<and> dim_le (Fin (min_dim + int k)) (last (dim_chunks ! j))
          \<longrightarrow> approx_chunks ! j = (if k < length approximation then approximation ! k else - 1))
    \<and> (dim_less (Fin (min_dim + int (length approximation) - 1)) (of_max_dim max_dim) \<longrightarrow>
          last dim_chunks = [Fin (min_dim + int (length approximation)), of_max_dim max_dim]
          \<and> last approx_chunks = - 1)"
proof -
  define a where "a = approximation"
  define n where "n = length a"
  define mx where "mx = of_max_dim max_dim"
  define m where "m = length (slice_indx a)"
  define dp where "dp = div_points a"
  define sc where "sc = schedule_chunks min_dim a"
  define sv where "sv = schedule_values a"
  define app where "app \<longleftrightarrow> dim_less (Fin (int (n - 1) + min_dim)) mx"
  define dcs where "dcs = (if app then sc @ [[Fin (int n + min_dim), mx]] else sc)"
  define acs where "acs = (if app then sv @ [- 1] else sv)"
  have ane: "a \<noteq> []" and alast: "last a \<noteq> - 1" using assms(1,2) by (simp_all add: a_def)
  have npos: "0 < n" using ane by (simp add: n_def)
  have a3: "dim_le (Fin (int (length a) - 1)) (dim_plus (of_max_dim max_dim) (- min_dim))"
    using assms(4) by (cases "of_max_dim max_dim") (simp_all add: a_def)
  have res: "chunk_approx_and_dims min_dim max_dim a = Inr (dcs, acs)"
    using chunk_approx_and_dims_explicit [OF ane alast a3]
    by (simp add: dcs_def acs_def app_def n_def mx_def sc_def sv_def)
  have len_sc: "length sc = Suc m" and len_sv: "length sv = Suc m"
    by (simp_all add: sc_def sv_def m_def length_schedule_chunks length_schedule_values)
  have len_dcs: "length dcs = (if app then Suc (Suc m) else Suc m)"
    and len_acs: "length acs = (if app then Suc (Suc m) else Suc m)"
    by (simp_all add: dcs_def acs_def len_sc len_sv)
  have dcs_sc: "dcs ! j = sc ! j" and acs_sv: "acs ! j = a ! (dp ! j)" if "j \<le> m" for j
    using that len_sc len_sv schedule_values_nth [of j a]
    by (simp_all add: dcs_def acs_def nth_append sv_def m_def dp_def)
  have dcs_app: "dcs ! Suc m = [Fin (int n + min_dim), mx]" and acs_app: "acs ! Suc m = - 1"
    if app
    using that len_sc len_sv by (simp_all add: dcs_def acs_def nth_append)
  have sc_ne: "sc ! j \<noteq> []"
    and sc_hd: "hd (sc ! j) = Fin (int (dp ! j) + min_dim)"
    and sc_last: "last (sc ! j) = Fin (int (dp ! Suc j - 1) + min_dim)"
    and dp_step: "dp ! j < dp ! Suc j"
    and dp_le: "dp ! Suc j \<le> n"
    if "j \<le> m" for j
    using that schedule_chunk_nonempty [OF ane, of j min_dim] schedule_chunk_hd [OF ane, of j min_dim]
      schedule_chunk_last [OF ane, of j min_dim] div_points_step [OF ane, of j]
      div_points_le_length [OF ane, of "Suc j"]
    by (simp_all add: sc_def m_def dp_def n_def)
  have dp0: "dp ! 0 = 0" and dpm: "dp ! Suc m = n"
    by (simp_all add: dp_def m_def n_def div_points_first div_points_last)
  have cases_j: "j \<le> m \<or> (app \<and> j = Suc m)" if "j < length dcs" for j
    using that by (auto simp: len_dcs split: if_splits)
  have p2: "[] \<notin> set dcs"
  proof
    assume "[] \<in> set dcs"
    then obtain j where j: "j < length dcs" "dcs ! j = []" by (auto simp: in_set_conv_nth)
    from cases_j [OF j(1)] show False
    proof
      assume "j \<le> m"
      then show False using sc_ne [of j] dcs_sc [of j] j(2) by simp
    next
      assume "app \<and> j = Suc m"
      then show False using dcs_app j(2) by simp
    qed
  qed
  have dne: "dcs \<noteq> []" using len_dcs by (auto split: if_splits)
  have p3: "hd (hd dcs) = Fin min_dim"
    using dne dcs_sc [of 0] sc_hd [of 0] dp0 by (simp add: hd_conv_nth)
  have p4: "last (last dcs) = mx"
  proof (cases app)
    case True
    then show ?thesis by (simp add: dcs_def)
  next
    case False
    have "sc \<noteq> []" using len_sc by auto
    then have "last sc = sc ! m" using len_sc by (simp add: last_conv_nth)
    then have "last dcs = sc ! m" using False by (simp add: dcs_def)
    then have l: "last (last dcs) = Fin (int (n - 1) + min_dim)"
      using sc_last [of m] dpm by simp
    show ?thesis
    proof (cases mx)
      case (Fin b)
      have "int n \<le> b + (1 - min_dim)" using assms(4) Fin by (simp add: mx_def n_def a_def)
      moreover have "\<not> int (n - 1) + min_dim < b" using False Fin by (simp add: app_def)
      ultimately have "int (n - 1) + min_dim = b" using npos by (simp add: of_nat_diff)
      then show ?thesis using l Fin by simp
    next
      case Infinity
      then show ?thesis using False by (simp add: app_def)
    qed
  qed
  have p5: "hd (dcs ! Suc j) = dim_plus (last (dcs ! j)) 1" if "Suc j < length dcs" for j
  proof -
    have jm: "j \<le> m" using that by (auto simp: len_dcs split: if_splits)
    have lastj: "last (dcs ! j) = Fin (int (dp ! Suc j - 1) + min_dim)"
      using jm dcs_sc [of j] sc_last [of j] by simp
    have pos: "0 < dp ! Suc j" using dp_step [OF jm] by simp
    from cases_j [OF that] show ?thesis
    proof
      assume "Suc j \<le> m"
      then show ?thesis
        using dcs_sc [of "Suc j"] sc_hd [of "Suc j"] lastj pos by (simp add: of_nat_diff)
    next
      assume "app \<and> Suc j = Suc m"
      then show ?thesis
        using dcs_app lastj dpm npos by (simp add: of_nat_diff)
    qed
  qed
  have p6: "dim_le (hd (dcs ! j)) (last (dcs ! j))" if "j < length dcs" for j
    using cases_j [OF that]
  proof
    assume jm: "j \<le> m"
    then show ?thesis
      using dcs_sc [of j] sc_hd [of j] sc_last [of j] dp_step [of j] by simp
  next
    assume ap: "app \<and> j = Suc m"
    then have "dim_less (Fin (int (n - 1) + min_dim)) mx" by (simp add: app_def)
    then have "dim_le (Fin (int n + min_dim)) mx"
      using npos by (cases mx) (simp_all add: of_nat_diff)
    then show ?thesis using ap dcs_app by simp
  qed
  have p7: "acs ! j = (if k < n then a ! k else - 1)"
    if "j < length dcs" "dim_le (hd (dcs ! j)) (Fin (min_dim + int k))"
      "dim_le (Fin (min_dim + int k)) (last (dcs ! j))" for j k
    using cases_j [OF that(1)]
  proof
    assume jm: "j \<le> m"
    have lo: "dp ! j \<le> k" using that(2) jm dcs_sc [of j] sc_hd [of j] by simp
    have "int k \<le> int (dp ! Suc j - 1)" using that(3) jm dcs_sc [of j] sc_last [of j] by simp
    then have hi: "k < dp ! Suc j" using dp_step [OF jm] by linarith
    have "a ! k = a ! (dp ! j)"
      using constant_on_chunk [OF ane, of j k] jm lo hi by (simp add: m_def dp_def)
    moreover have "k < n" using hi dp_le [OF jm] by simp
    ultimately show ?thesis using acs_sv [OF jm] by simp
  next
    assume ap: "app \<and> j = Suc m"
    then have "n \<le> k" using that(2) dcs_app by simp
    then show ?thesis using ap acs_app by simp
  qed
  have p8: "last dcs = [Fin (min_dim + int n), mx] \<and> last acs = - 1"
    if "dim_less (Fin (min_dim + int n - 1)) mx"
  proof -
    have "int (n - 1) + min_dim = min_dim + int n - 1" using npos by (simp add: of_nat_diff)
    then have app using that unfolding app_def by (simp only:)
    then show ?thesis by (simp add: dcs_def acs_def add.commute)
  qed
  have "length acs = length dcs" by (simp add: len_dcs len_acs)
  with res dne p2 p3 p4 p5 p6 p7 p8 show ?thesis
    unfolding a_def [symmetric] n_def [symmetric] mx_def [symmetric]
    by (intro exI [of _ dcs] exI [of _ acs]) (simp add: a_def n_def)
qed

lemma chunk_approx_and_dims_partition_example:
  "\<exists>dim_chunks approx_chunks.
      chunk_approx_and_dims 0 (Some 5) [3, 3, 1] = Inr (dim_chunks, approx_chunks)
    \<and> length approx_chunks = length dim_chunks
    \<and> hd (hd dim_chunks) = Fin 0 \<and> last (last dim_chunks) = Fin 5
    \<and> last dim_chunks = [Fin 3, Fin 5] \<and> last approx_chunks = - 1"
proof -
  have h1: "[3, 3, 1] \<noteq> ([] :: int list)" and h2: "last [3, 3, 1] \<noteq> (- 1 :: int)"
    and h3: "dim_le (Fin 0) (of_max_dim (Some 5))"
    and h4: "dim_le (Fin (int (length [3, 3, 1 :: int]))) (dim_plus (of_max_dim (Some 5)) (1 - 0))"
    by (simp_all add: of_max_dim_def)
  have short: "dim_less (Fin (0 + int (length [3, 3, 1 :: int]) - 1)) (of_max_dim (Some 5))"
    by (simp add: of_max_dim_def)
  from chunk_approx_and_dims_partition [OF h1 h2 h3 h4] short
  obtain dcs acs where "chunk_approx_and_dims 0 (Some 5) [3, 3, 1] = Inr (dcs, acs)"
    "length acs = length dcs" "hd (hd dcs) = Fin 0" "last (last dcs) = of_max_dim (Some 5)"
    "last dcs = [Fin (0 + int (length [3, 3, 1 :: int])), of_max_dim (Some 5)]" "last acs = - 1"
    by blast
  then show ?thesis by (simp add: of_max_dim_def)
qed

text \<open>
  C2.  The chunks do not always cover every dimension of the range exactly once, each with
  the schedule's value of its dimensions.  When the schedule ends in \<open>-1\<close>, the code
  writes \<open>-1\<close> over the last dimension of the last chunk, to mark it as unbounded.  For
  the schedule \<open>[5, -1, -1]\<close> the last chunk is then \<open>[1, -1]\<close>, from dimension 1
  upwards, with the value \<open>-1\<close> (exact).  But when the final \<open>-1\<close> is a chunk of its
  own, that chunk has one element, which is its first dimension too: for the schedule
  \<open>[5, -1]\<close> on the range \<open>[0, 1]\<close> the chunks are \<open>[0]\<close> and \<open>[-1]\<close>, so that
  dimension 1 is in no chunk and the last chunk starts at \<open>-1\<close>; and for the schedule
  \<open>[3, -1]\<close> on the range \<open>[1, 2]\<close> the value of the last chunk is looked up at the
  index \<open>-1 - min_dim = -2\<close>, which gives 3 for the dimension that the schedule sets to
  \<open>-1\<close> (exact).
\<close>

theorem chunk_approx_and_dims_single_final_chunk:
  "chunk_approx_and_dims 0 (Some 1) [5, - 1] = Inr ([[Fin 0], [Fin (- 1)]], [5, - 1])
   \<and> chunk_approx_and_dims 1 (Some 2) [3, - 1] = Inr ([[Fin 1], [Fin (- 1)]], [3, 3])
   \<and> chunk_approx_and_dims 0 None [5, - 1, - 1] = Inr ([[Fin 0], [Fin 1, Fin (- 1)]], [5, - 1])"
  by code_simp

section \<open>Properties of the validation of \<^verbatim>\<open>betti_counts\<close>\<close>

text \<open>
  Whatever its arguments, \<^verbatim>\<open>betti_counts\<close> raises before it calls the solver: an
  \<^verbatim>\<open>AssertionError\<close> for a matrix with a nonzero diagonal or one that is not square, and
  a \<^verbatim>\<open>TypeError\<close> from \<^verbatim>\<open>approximation in None\<close> for every other call.
\<close>

lemma betti_counts_never_returns:
  "betti_counts flagser_unweighted adj min_dim max_dim simplex_type approximation
     = (if count_nonzero (diagonal (astype_bool_int adj)) = 0 \<and> fst (shape adj) = snd (shape adj)
        then ([], Inl TypeError) else ([], Inl AssertionError))"
  by (simp add: betti_counts_def Let_def py_in_None_def run_simps astype_bool_int_def)

text \<open>
  C1 (the code departs from the claim).  The claim is the documented contract: for a square
  matrix with zero diagonal the validation fails, with an \<^verbatim>\<open>AssertionError\<close>, exactly when
  \<open>approximation\<close> is given and \<open>min_dim\<close> is not 0, and the default call goes on to the
  solver.  In the code the default call on the matrix of one node raises \<^verbatim>\<open>TypeError\<close>
  without any call of the solver, and so does the documented way to approximate
  (\<open>min_dim = 0\<close> with a schedule).
\<close>

theorem betti_counts_default_call_raises:
  "betti_counts sample_homology one_node 0 None ''directed'' None = ([], Inl TypeError)
   \<and> betti_counts sample_homology one_node 0 None ''directed'' (Some [1]) = ([], Inl TypeError)
   \<and> betti_counts sample_homology one_node 1 None ''directed'' (Some [1]) = ([], Inl TypeError)
   \<and> count_nonzero (diagonal one_node) = 0 \<and> shape one_node = (1, 1)"
  by (simp add: betti_counts_never_returns) code_simp

section \<open>Properties of the generalised degree\<close>

lemma count_list_map_filter: "count_list (map f xs) y = length (filter (\<lambda>x. f x = y) xs)"
  by (induction xs) simp_all

lemma rows_same_length:
  assumes "\<forall>s \<in> set rows. length s = Suc k" and "r \<in> set rows" and "rows \<noteq> []"
  shows "length r = length (hd rows)"
proof -
  have "hd rows \<in> set rows" using assms(3) by (rule hd_in_set)
  then show ?thesis using assms(1,2) by simp
qed

lemma np_column_rows:
  assumes "rows \<noteq> []" and "\<forall>s \<in> set rows. length s = Suc k" and "c \<le> k"
  shows "np_column rows (int c) = Inr (map (\<lambda>s. s ! c) rows)"
proof -
  have same: "\<not> (\<exists>r \<in> set rows. length r \<noteq> length (hd rows))"
    using rows_same_length [OF assms(2) _ assms(1)] by blast
  have "py_index r (int c) = Inr (r ! c)" if "r \<in> set rows" for r
  proof -
    have "c < length r" using assms(2,3) that by auto
    then show ?thesis by (simp add: py_index_def)
  qed
  then have "collect (\<lambda>r. py_index r (int c)) rows = Inr (map (\<lambda>s. s ! c) rows)"
    by (rule collect_all_Inr)
  then show ?thesis using assms(1) same unfolding np_column_def by (simp only: if_False)
qed

lemma degree_columns_expected:
  assumes "well_formed_out out" and "2 \<le> d" and "d < int (length (cell_counts out))"
  shows "degree_columns out direction n_nodes d
       = Inr ((if in_direction ''OUT'' direction
               then [((d, ''out_degree''),
                 map (\<lambda>v. length (filter (\<lambda>s. s ! 0 = int v) (out_simplices out ! nat d))) [0..<n_nodes])]
               else [])
            @ (if in_direction ''IN'' direction
               then [((d, ''in_degree''),
                 map (\<lambda>v. length (filter (\<lambda>s. s ! nat d = int v) (out_simplices out ! nat d))) [0..<n_nodes])]
               else []))"
proof -
  define rows where "rows = out_simplices out ! nat d"
  have dn: "2 \<le> nat d" "nat d < length (cell_counts out)" "int (nat d) = d"
    using assms(2,3) by simp_all
  have ne: "rows \<noteq> []" and len: "\<forall>s \<in> set rows. length s = Suc (nat d)"
    using assms(1) dn(1,2) by (simp_all add: well_formed_out_def rows_def)
  have "nat d < length (out_simplices out)"
    using assms(1) dn(2) by (simp add: well_formed_out_def)
  then have idx: "py_index (out_simplices out) d = Inr rows"
    using assms(2) by (simp add: py_index_def rows_def)
  have c0: "np_column rows 0 = Inr (map (\<lambda>s. s ! 0) rows)"
    using np_column_rows [OF ne len, of 0] by simp
  have cd: "np_column rows d = Inr (map (\<lambda>s. s ! nat d) rows)"
    using np_column_rows [OF ne len, of "nat d"] dn(3) by simp
  show ?thesis
    by (simp add: degree_columns_def and_then_def idx [unfolded rows_def] c0 [unfolded rows_def]
        cd [unfolded rows_def] degree_column_def count_list_map_filter)
qed


lemma generalized_degree_expected:
  assumes "well_formed_out out" and "m < int (length (cell_counts out))"
  shows "generalized_degree out direction n_nodes m
       = Inr (expected_degree_table (out_simplices out) direction n_nodes m)"
proof -
  have "collect (degree_columns out direction n_nodes) [2..m]
      = Inr (map (\<lambda>d. (if in_direction ''OUT'' direction
               then [((d, ''out_degree''),
                 map (\<lambda>v. length (filter (\<lambda>s. s ! 0 = int v) (out_simplices out ! nat d))) [0..<n_nodes])]
               else [])
            @ (if in_direction ''IN'' direction
               then [((d, ''in_degree''),
                 map (\<lambda>v. length (filter (\<lambda>s. s ! nat d = int v) (out_simplices out ! nat d))) [0..<n_nodes])]
               else [])) [2..m])"
    using assms by (intro collect_all_Inr degree_columns_expected) auto
  then show ?thesis
    by (simp add: generalized_degree_def and_then_def expected_degree_table_def)
qed


text \<open>
  C8 (amended).  For a matrix with zero diagonal, a valid direction and \<open>max_dim\<close> either
  \<open>-1\<close> or at least 2: \<^verbatim>\<open>node_k_degree\<close> always calls the solver first, once.  When the
  solver then reports no simplex of dimension 2 or higher (one or two cell counts), the
  function prints the informational line and returns no table (after the warning that the
  dimension is not attained, when a \<open>max_dim\<close> was asked for), without an error.  When
  the requested \<open>max_dim\<close> exceeds the attained maximal dimension, which is at least 2,
  the function logs the warning and returns the table of the degrees up to the attained
  dimension.
\<close>

theorem node_k_degree_degenerate:
  fixes matrix :: "('w::comm_monoid_add) sparse"
  assumes "max_dim > 1 \<or> max_dim = - 1" and "valid_direction direction"
    and "count_nonzero (diagonal matrix) = 0"
  shows "(length (cell_counts (solver (degree_request matrix max_dim))) \<in> {1, 2} \<longrightarrow>
           node_k_degree solver matrix direction max_dim
             = (Call (degree_request matrix max_dim)
                  # (if max_dim = - 1 then []
                     else [Warning ''The maximum dimension selected is not attained''])
                  @ [Print ''There are no simplices of dimension 2 or higher''],
                Inr None))
       \<and> (well_formed_out (solver (degree_request matrix max_dim))
          \<and> 3 \<le> length (cell_counts (solver (degree_request matrix max_dim)))
          \<and> int (length (cell_counts (solver (degree_request matrix max_dim)))) - 1 < max_dim \<longrightarrow>
           node_k_degree solver matrix direction max_dim
             = ([Call (degree_request matrix max_dim),
                 Warning ''The maximum dimension selected is not attained''],
                Inr (Some (expected_degree_table
                   (out_simplices (solver (degree_request matrix max_dim))) direction
                   (fst (shape matrix))
                   (int (length (cell_counts (solver (degree_request matrix max_dim)))) - 1)))))"
proof -
  define out where "out = solver (degree_request matrix max_dim)"
  have short: "node_k_degree solver matrix direction max_dim
             = (Call (degree_request matrix max_dim)
                  # (if max_dim = - 1 then []
                     else [Warning ''The maximum dimension selected is not attained''])
                  @ [Print ''There are no simplices of dimension 2 or higher''],
                Inr None)" if "length (cell_counts out) \<in> {1, 2}"
    using that assms
    by (auto simp: node_k_degree_def Let_def run_simps out_def [symmetric])
  have down: "node_k_degree solver matrix direction max_dim
             = ([Call (degree_request matrix max_dim),
                 Warning ''The maximum dimension selected is not attained''],
                Inr (Some (expected_degree_table (out_simplices out) direction (fst (shape matrix))
                   (int (length (cell_counts out)) - 1))))"
    if "well_formed_out out" "3 \<le> length (cell_counts out)"
      "int (length (cell_counts out)) - 1 < max_dim"
  proof -
    have "generalized_degree out direction (fst (shape matrix)) (int (length (cell_counts out)) - 1)
        = Inr (expected_degree_table (out_simplices out) direction (fst (shape matrix))
                   (int (length (cell_counts out)) - 1))"
      using that(1) by (intro generalized_degree_expected) simp_all
    then show ?thesis
      using that(2,3) assms
      by (auto simp: node_k_degree_def Let_def run_simps out_def [symmetric])
  qed
  show ?thesis using short down unfolding out_def by blast
qed


theorem node_k_degree_degenerate_witness:
  "node_k_degree sample_solver two_edges (Tuple [''IN'', ''OUT'']) (- 1)
     = ([Call (degree_request two_edges (- 1)),
         Print ''There are no simplices of dimension 2 or higher''], Inr None)
   \<and> node_k_degree triangle_solver triangle (Tuple [''IN'', ''OUT'']) 5
     = ([Call (degree_request triangle 5),
         Warning ''The maximum dimension selected is not attained''],
        Inr (Some [((2, ''out_degree''), [1, 0, 0]), ((2, ''in_degree''), [0, 0, 1])]))"
proof -
  have v: "valid_direction (Tuple [''IN'', ''OUT''])" by (simp add: valid_direction_def)
  have d1: "count_nonzero (diagonal two_edges) = 0" by code_simp
  have d2: "count_nonzero (diagonal triangle) = 0" by code_simp
  have c1: "length (cell_counts (sample_solver (degree_request two_edges (- 1)))) \<in> {1, 2}"
    by (simp add: sample_solver_def)
  have c2: "well_formed_out (triangle_solver (degree_request triangle 5))
      \<and> 3 \<le> length (cell_counts (triangle_solver (degree_request triangle 5)))
      \<and> int (length (cell_counts (triangle_solver (degree_request triangle 5)))) - 1 < 5"
    by code_simp
  have t: "expected_degree_table (out_simplices (triangle_solver (degree_request triangle 5)))
        (Tuple [''IN'', ''OUT'']) (fst (shape triangle))
        (int (length (cell_counts (triangle_solver (degree_request triangle 5)))) - 1)
      = [((2, ''out_degree''), [1, 0, 0]), ((2, ''in_degree''), [0, 0, 1])]"
    by code_simp
  have m1: "(- 1 :: int) > 1 \<or> (- 1 :: int) = - 1" and m2: "(5 :: int) > 1 \<or> (5 :: int) = - 1"
    by simp_all
  have r1: "node_k_degree sample_solver two_edges (Tuple [''IN'', ''OUT'']) (- 1)
     = ([Call (degree_request two_edges (- 1)),
         Print ''There are no simplices of dimension 2 or higher''], Inr None)"
    using node_k_degree_degenerate [OF m1 v d1, of sample_solver, THEN conjunct1, THEN mp, OF c1]
    by simp
  have r2: "node_k_degree triangle_solver triangle (Tuple [''IN'', ''OUT'']) 5
     = ([Call (degree_request triangle 5),
         Warning ''The maximum dimension selected is not attained''],
        Inr (Some [((2, ''out_degree''), [1, 0, 0]), ((2, ''in_degree''), [0, 0, 1])]))"
    using node_k_degree_degenerate [OF m2 v d2, of triangle_solver, THEN conjunct2, THEN mp, OF c2]
    unfolding t .
  from r1 r2 show ?thesis by (rule conjI)
qed

theorem node_k_degree_degenerate_counterexample:
  "cell_counts (sample_solver (degree_request two_edges (- 1))) = [2, 2]
   \<and> node_k_degree sample_solver two_edges (Tuple [''IN'', ''OUT'']) (- 1)
     = ([Call (degree_request two_edges (- 1)),
         Print ''There are no simplices of dimension 2 or higher''], Inr None)
   \<and> solver_calls (fst (node_k_degree sample_solver two_edges (Tuple [''IN'', ''OUT'']) (- 1)))
     = [degree_request two_edges (- 1)]"
  by code_simp

section \<open>Properties of the bidirectional-edge counts\<close>
















section \<open>Properties of the binary simplex decoder\<close>

lemma mask21_eq: "mask21 = mask 21"
  by (simp add: mask21_def mask_eq_exp_minus_1)

lemma mask42_eq: "mask42 = push_bit 21 (mask 21)"
  unfolding mask42_def mask21_def by code_simp

lemma mask63_eq: "mask63 = push_bit 42 (mask 21)"
  unfolding mask63_def mask42_def mask21_def by code_simp

lemma end_marker_eq: "end_marker = mask 21"
  by (simp add: end_marker_def mask_eq_exp_minus_1)

lemma slot_shifted:
  fixes w :: u64
  shows "drop_bit n (w AND push_bit n (mask k)) = take_bit k (drop_bit n w)"
  by (rule bit_eqI) (auto simp: bit_simps dest: bit_imp_le_length)

lemma start_flag:
  fixes w :: u64
  shows "drop_bit 63 (w AND mask64) = 0 \<longleftrightarrow> \<not> bit w 63"
proof -
  have "drop_bit 63 (w AND mask64) = take_bit 1 (drop_bit 63 w)"
    unfolding mask64_def using slot_shifted [of 63 w 1] by (simp only: mask_1)
  also have "\<dots> = 0 \<longleftrightarrow> \<not> bit w 63"
    by (simp add: bit_iff_odd_drop_bit take_bit_Suc_from_most flip: even_iff_mod_2_eq_zero)
  finally show ?thesis .
qed

lemma decode_vertices_slots: "decode_vertices w = (starts_simplex w, slots w)"
proof -
  have "w AND mask21 = take_bit 21 w"
    by (simp add: mask21_eq take_bit_eq_mask)
  moreover have "drop_bit 21 (w AND mask42) = take_bit 21 (drop_bit 21 w)"
    by (simp only: mask42_eq slot_shifted)
  moreover have "drop_bit 42 (w AND mask63) = take_bit 21 (drop_bit 42 w)"
    by (simp only: mask63_eq slot_shifted)
  moreover have "end_marker = 2 ^ 21 - 1" by (simp add: end_marker_def)
  ultimately show ?thesis
    unfolding decode_vertices_def Let_def slots_def starts_simplex_def start_flag
    by (simp only:)
qed


lemma cumsum_from_lower: "s \<in> set (cumsum_from c bs) \<Longrightarrow> c \<le> s"
proof (induction bs arbitrary: c)
  case Nil
  then show ?case by simp
next
  case (Cons b bs)
  from Cons.prems have "s = c + (if b then 1 else 0) \<or> s \<in> set (cumsum_from (c + (if b then 1 else 0)) bs)"
    by simp
  then show ?case
  proof
    assume "s = c + (if b then 1 else 0)"
    then show ?thesis by simp
  next
    assume "s \<in> set (cumsum_from (c + (if b then 1 else 0)) bs)"
    then have "c + (if b then 1 else 0) \<le> s" by (rule Cons.IH)
    then show ?thesis by simp
  qed
qed

lemma length_cumsum_from: "length (cumsum_from c bs) = length bs"
  by (induction bs arbitrary: c) simp_all

lemma keys_groupby_hstack: "map fst (groupby_hstack rows) = sort (remdups (map fst rows))"
  by (simp add: groupby_hstack_def comp_def)

lemma set_keys_groupby_hstack: "fst ` set (groupby_hstack rows) = fst ` set rows"
proof -
  have "set (map fst (groupby_hstack rows)) = set (map fst rows)"
    unfolding keys_groupby_hstack by simp
  then show ?thesis by simp
qed

lemma sorted_least_first:
  assumes "sorted (xs :: nat list)" and "distinct xs" and "k \<in> set xs" and "\<forall>x \<in> set xs. k \<le> x"
  shows "\<exists>ys. xs = k # ys \<and> k \<notin> set ys"
proof (cases xs)
  case Nil
  then show ?thesis using assms(3) by simp
next
  case (Cons x ys)
  have "x \<le> k" using assms(1,3) Cons by auto
  moreover have "k \<le> x" using assms(4) Cons by simp
  ultimately have "x = k" by simp
  then show ?thesis using assms(2) Cons by simp
qed

lemma groupby_hstack_new_key:
  assumes "\<forall>r \<in> set rows. k \<le> fst r" and "k \<notin> fst ` set rows"
  shows "groupby_hstack ((k, v) # rows) = (k, v) # groupby_hstack rows"
proof -
  have keys: "sort (remdups (map fst ((k, v) # rows))) = k # sort (remdups (map fst rows))"
  proof -
    have "remdups (map fst ((k, v) # rows)) = k # remdups (map fst rows)"
      using assms(2) by simp
    moreover have "insort k (sort (remdups (map fst rows))) = k # sort (remdups (map fst rows))"
      using assms(1) by (intro insort_is_Cons) auto
    ultimately show ?thesis by simp
  qed
  have none: "filter (\<lambda>r. fst r = k) rows = []"
    using assms(2) by (auto simp: filter_empty_conv)
  have others: "filter (\<lambda>r. fst r = s) ((k, v) # rows) = filter (\<lambda>r. fst r = s) rows"
    if "s \<in> set (sort (remdups (map fst rows)))" for s
  proof -
    have "s \<noteq> k" using that assms(2) by auto
    then show ?thesis by simp
  qed
  show ?thesis
    unfolding groupby_hstack_def keys
    using none others by (simp cong: map_cong)
qed

lemma groupby_hstack_same_key:
  assumes "\<forall>r \<in> set rows. k \<le> fst r" and "k \<in> fst ` set rows"
  shows "\<exists>vs rest. groupby_hstack rows = (k, vs) # rest
           \<and> groupby_hstack ((k, v) # rows) = (k, v @ vs) # rest"
proof -
  have same: "remdups (map fst ((k, v) # rows)) = remdups (map fst rows)"
    using assms(2) by simp
  have "\<exists>ys. sort (remdups (map fst rows)) = k # ys \<and> k \<notin> set ys"
    using assms by (intro sorted_least_first) auto
  then obtain ys where ys: "sort (remdups (map fst rows)) = k # ys" "k \<notin> set ys" by blast
  have others: "filter (\<lambda>r. fst r = s) ((k, v) # rows) = filter (\<lambda>r. fst r = s) rows"
    if "s \<in> set ys" for s
  proof -
    have "s \<noteq> k" using that ys(2) by auto
    then show ?thesis by simp
  qed
  define vs where "vs = concat (map snd (filter (\<lambda>r. fst r = k) rows))"
  define rest where "rest = map (\<lambda>s. (s, concat (map snd (filter (\<lambda>r. fst r = s) rows)))) ys"
  have "groupby_hstack rows = (k, vs) # rest"
    unfolding groupby_hstack_def ys(1) by (simp add: vs_def rest_def)
  moreover have "groupby_hstack ((k, v) # rows) = (k, v @ vs) # rest"
    unfolding groupby_hstack_def same ys(1)
    using others by (simp add: vs_def rest_def cong: map_cong)
  ultimately show ?thesis by blast
qed

lemma blocks_nonempty: "ws \<noteq> [] \<Longrightarrow> blocks ws \<noteq> []"
  by (cases ws) (simp_all split: list.splits)

lemma blocks_hd: "ws \<noteq> [] \<Longrightarrow> hd (hd (blocks ws)) = hd ws"
  by (cases ws) (simp_all split: list.splits)


lemma groupby_blocks:
  assumes "ws \<noteq> []"
  shows "groupby_hstack (zip (cumsum_from c (map starts_simplex ws)) (map slots ws))
       = enumerate (c + (if starts_simplex (hd ws) then 1 else 0))
           (map (\<lambda>b. concat (map slots b)) (blocks ws))"
  using assms
proof (induction ws arbitrary: c)
  case Nil
  then show ?case by simp
next
  case (Cons w ws)
  define c' where "c' = c + (if starts_simplex w then 1 else 0)"
  define rows where "rows = zip (cumsum_from c' (map starts_simplex ws)) (map slots ws)"
  have lower: "\<forall>r \<in> set rows. c' \<le> fst r"
  proof
    fix r assume r: "r \<in> set rows"
    obtain a v where av: "r = (a, v)" by (cases r)
    from r have "(a, v) \<in> set (zip (cumsum_from c' (map starts_simplex ws)) (map slots ws))"
      by (simp add: rows_def av)
    then have "a \<in> set (cumsum_from c' (map starts_simplex ws))" by (rule set_zip_leftD)
    then show "c' \<le> fst r" unfolding av by (simp add: cumsum_from_lower)
  qed
  have unfold: "zip (cumsum_from c (map starts_simplex (w # ws))) (map slots (w # ws))
      = (c', slots w) # rows"
    by (simp add: c'_def rows_def)
  show ?case
  proof (cases "ws = []")
    case True
    then show ?thesis
      by (simp add: groupby_hstack_def)
  next
    case False
    define k' where "k' = c' + (if starts_simplex (hd ws) then 1 else 0)"
    obtain b bs where bl: "blocks ws = b # bs"
      using blocks_nonempty [OF False] by (cases "blocks ws") auto
    have hdb: "hd b = hd ws" using blocks_hd [OF False] bl by simp
    have IH: "groupby_hstack rows
        = (k', concat (map slots b)) # enumerate (Suc k') (map (\<lambda>b. concat (map slots b)) bs)"
      using Cons.IH [OF False, of c'] by (simp add: rows_def k'_def bl)
    have keys: "fst ` set rows = fst ` set (groupby_hstack rows)"
      by (simp add: set_keys_groupby_hstack)
    show ?thesis
    proof (cases "starts_simplex (hd ws)")
      case True
      then have k': "k' = Suc c'" by (simp add: k'_def)
      have "fst ` set (groupby_hstack rows) \<subseteq> {Suc c'..}"
        unfolding IH k' by (auto simp: in_set_enumerate_eq)
      then have "c' \<notin> fst ` set rows" unfolding keys by auto
      then have "groupby_hstack ((c', slots w) # rows) = (c', slots w) # groupby_hstack rows"
        using lower by (intro groupby_hstack_new_key)
      moreover have "blocks (w # ws) = [w] # b # bs"
        using True bl hdb by simp
      ultimately show ?thesis
        unfolding unfold IH k' by (simp add: c'_def)
    next
      case noStart: False
      then have k': "k' = c'" by (simp add: k'_def)
      have "c' \<in> fst ` set (groupby_hstack rows)"
        unfolding IH k' by simp
      then have "c' \<in> fst ` set rows" unfolding keys .
      then obtain vs rest where g: "groupby_hstack rows = (c', vs) # rest"
          "groupby_hstack ((c', slots w) # rows) = (c', slots w @ vs) # rest"
        using groupby_hstack_same_key [OF lower, of "slots w"] by blast
      from g(1) IH have vs: "vs = concat (map slots b)"
          and rest: "rest = enumerate (Suc c') (map (\<lambda>b. concat (map slots b)) bs)"
        by (simp_all add: k')
      have "blocks (w # ws) = (w # b) # bs"
        using noStart bl hdb by simp
      then show ?thesis
        unfolding unfold g(2) vs rest by (simp add: c'_def)
    qed
  qed
qed


lemma concat_blocks: "concat (blocks ws) = ws"
  by (induction ws) (auto split: list.splits)

lemma blocks_no_empty: "[] \<notin> set (blocks ws)"
  by (induction ws) (auto split: list.splits if_splits)

lemma blocks_tails: "b \<in> set (blocks ws) \<Longrightarrow> w \<in> set (tl b) \<Longrightarrow> \<not> starts_simplex w"
proof (induction ws arbitrary: b)
  case Nil
  then show ?case by simp
next
  case (Cons x ws)
  show ?case
  proof (cases "blocks ws")
    case Nil
    then show ?thesis using Cons.prems by simp
  next
    case (Cons c cs)
    have cne: "c \<noteq> []" using blocks_no_empty [of ws] Cons by auto
    show ?thesis
    proof (cases "starts_simplex (hd c)")
      case True
      then have "b = [x] \<or> b \<in> set (blocks ws)" using Cons.prems(1) Cons by auto
      then show ?thesis using Cons.prems(2) Cons.IH by auto
    next
      case False
      then have "b = x # c \<or> b \<in> set cs" using Cons.prems(1) Cons by auto
      then show ?thesis
      proof
        assume b: "b = x # c"
        then have "w \<in> set c" using Cons.prems(2) by simp
        then have "w = hd c \<or> w \<in> set (tl c)" using cne by (cases c) auto
        then show ?thesis using False Cons.IH [of c] Cons by auto
      next
        assume "b \<in> set cs"
        then show ?thesis using Cons.prems(2) Cons.IH [of b] Cons by simp
      qed
    qed
  qed
qed

lemma blocks_later_start: "b \<in> set (tl (blocks ws)) \<Longrightarrow> starts_simplex (hd b)"
proof (induction ws arbitrary: b)
  case Nil
  then show ?case by simp
next
  case (Cons x ws)
  show ?case
  proof (cases "blocks ws")
    case Nil
    then show ?thesis using Cons.prems by simp
  next
    case (Cons c cs)
    show ?thesis
    proof (cases "starts_simplex (hd c)")
      case True
      then have "b = c \<or> b \<in> set (tl (blocks ws))" using Cons.prems Cons by auto
      then show ?thesis using True Cons.IH by auto
    next
      case False
      then have "b \<in> set (tl (blocks ws))" using Cons.prems Cons by auto
      then show ?thesis by (rule Cons.IH)
    qed
  qed
qed

text \<open>
  C5 (amended).  For every non-empty sequence of 64-bit words, \<^verbatim>\<open>_binary2simplex\<close> begins
  a new simplex exactly at the words whose bit 63 is clear: the simplices are the blocks
  of the sequence, where every block after the first begins with such a word and no
  other word of a block is one.  For each block, in order and numbered consecutively (from
  1, or from 0 when the first word has bit 63 set), it returns the concatenation, in word
  order, of the vertex slots bits 0-20, 21-41 and 42-62 of the words, without the slots
  equal to \<open>2\<^sup>2\<^sup>1 - 1\<close>.
\<close>

theorem binary2simplex_blocks:
  assumes "ws \<noteq> []"
  shows "binary2simplex ws None
           = Inr (None, enumerate (first_sid ws) (map (\<lambda>b. concat (map slots b)) (blocks ws)))
       \<and> concat (blocks ws) = ws \<and> [] \<notin> set (blocks ws)
       \<and> (\<forall>b \<in> set (blocks ws). \<forall>w \<in> set (tl b). \<not> starts_simplex w)
       \<and> (\<forall>b \<in> set (tl (blocks ws)). starts_simplex (hd b))"
proof -
  have m1: "map (fst \<circ> decode_vertices) ws = map starts_simplex ws"
    and m2: "map (snd \<circ> decode_vertices) ws = map slots ws"
    by (simp_all add: decode_vertices_slots)
  have "binary2simplex ws None
           = Inr (None, enumerate (first_sid ws) (map (\<lambda>b. concat (map slots b)) (blocks ws)))"
    using assms
    by (simp add: binary2simplex_def Let_def np_cumsum_def first_sid_def m1 m2
        groupby_blocks [OF assms, of 0])
  then show ?thesis
    using concat_blocks blocks_no_empty blocks_tails blocks_later_start by blast
qed



theorem binary2simplex_blocks_witness:
  "binary2simplex [0x0000080000200000, 0xFFFFFFFFFFE00003] None = Inr (None, [(1, [0, 1, 2, 3])])"
proof -
  have ne: "[0x0000080000200000, 0xFFFFFFFFFFE00003 :: u64] \<noteq> []"
    by (rule list.distinct(2))
  have e: "enumerate (first_sid [0x0000080000200000, 0xFFFFFFFFFFE00003])
          (map (\<lambda>b. concat (map slots b)) (blocks [0x0000080000200000, 0xFFFFFFFFFFE00003]))
      = [(1, [0, 1, 2, 3])]"
    by code_simp
  have "binary2simplex [0x0000080000200000, 0xFFFFFFFFFFE00003] None
      = Inr (None, enumerate (first_sid [0x0000080000200000, 0xFFFFFFFFFFE00003])
          (map (\<lambda>b. concat (map slots b)) (blocks [0x0000080000200000, 0xFFFFFFFFFFE00003])))"
    using binary2simplex_blocks [OF ne] by (rule conjunct1)
  then show ?thesis unfolding e .
qed

theorem binary2simplex_blocks_counterexample:
  "bit (0x8000080000200000 :: u64) 63 \<and> bit (0x8000140000800003 :: u64) 63
   \<and> slots 0x8000080000200000 = [0, 1, 2] \<and> slots 0x8000140000800003 = [3, 4, 5]
   \<and> binary2simplex [0x8000080000200000, 0x8000140000800003] None
     = Inr (None, [(0, [0, 1, 2, 3, 4, 5])])"
  by code_simp

end
